theory Spec2Isabelle
  imports Complex_Main "HOL-Library.Multiset" "HOL-Library.List_Lexorder" "HOL-Library.Char_ord"
begin

text \<open>
  The progress tracker is three scripts for the pages of a documentation site. The page
  scanner (\<open>individual-progress.js\<close>) counts the task checkboxes of the page it runs on.
  The two dashboard scripts (both named \<open>progress.js\<close>) fetch other pages, count their
  tasks and show one card per page: the first works on a fixed list of three pages, the
  second finds its pages in the search index of the site. This theory models the three
  scripts as functions on a document tree and a page state, and proves what they count,
  which pages they find and what they leave on the page when something fails.
\<close>

section \<open>JavaScript numbers\<close>

text \<open>
  Every number of the scripts is an IEEE 754 binary64 value. The counters start at 0 and
  grow by \<open>++\<close>, so they are natural numbers, exact as long as they stay below \<open>2 ^ 53\<close>
  (no document has that many elements); they are modelled as \<open>nat\<close>. A quotient or a
  product is rounded to 53 significant bits, to nearest, ties to even; the values that
  occur here are far from the overflow and the subnormal range, which are not modelled.
  Division by zero does not raise in JavaScript: it gives \<open>Infinity\<close> or \<open>NaN\<close>.
\<close>

datatype number = Num rat | Infinity | NaN

text \<open>The binary exponent \<open>e\<close> of a positive rational \<open>x\<close>: \<open>2 ^ e \<le> x < 2 ^ (e + 1)\<close>.\<close>

function halvings :: "rat \<Rightarrow> nat" where
  "halvings x = (if x < 2 then 0 else Suc (halvings (x / 2)))"
  by pat_completeness auto
termination
proof (relation "measure (\<lambda>x. nat \<lfloor>x\<rfloor>)")
  show "wf (measure (\<lambda>x::rat. nat \<lfloor>x\<rfloor>))" by simp
next
  fix x :: rat
  assume "\<not> x < 2"
  then have "x / 2 \<le> x - 1" by simp
  then have "\<lfloor>x / 2\<rfloor> \<le> \<lfloor>x - 1\<rfloor>" by (rule floor_mono)
  moreover have "\<lfloor>x - 1\<rfloor> = \<lfloor>x\<rfloor> - 1" by simp
  moreover have "2 \<le> \<lfloor>x\<rfloor>" using \<open>\<not> x < 2\<close> by (simp add: le_floor_iff)
  ultimately show "(x / 2, x) \<in> measure (\<lambda>x. nat \<lfloor>x\<rfloor>)" by simp
qed

function doublings :: "rat \<Rightarrow> nat" where
  "doublings x = (if x \<le> 0 \<or> 1 \<le> x then 0 else Suc (doublings (2 * x)))"
  by pat_completeness auto
termination
proof (relation "measure (\<lambda>x. nat \<lceil>1 / x\<rceil>)")
  show "wf (measure (\<lambda>x::rat. nat \<lceil>1 / x\<rceil>))" by simp
next
  fix x :: rat
  assume "\<not> (x \<le> 0 \<or> 1 \<le> x)"
  then have x: "0 < x" "x < 1" by simp_all
  define n where "n = \<lceil>1 / x\<rceil>"
  have "1 < 1 / x" using x by simp
  then have n2: "2 \<le> n" unfolding n_def by (simp add: le_ceiling_iff less_ceiling_iff)
  have "1 / x \<le> of_int n" unfolding n_def by (rule le_of_int_ceiling)
  then have "1 / (2 * x) \<le> of_int n / 2" by simp
  also have "\<dots> \<le> of_int (n - 1)" using n2 by simp
  finally have "\<lceil>1 / (2 * x)\<rceil> \<le> n - 1" by (rule ceiling_le)
  then have "nat \<lceil>1 / (2 * x)\<rceil> < nat n" using n2 by linarith
  then show "(2 * x, x) \<in> measure (\<lambda>x. nat \<lceil>1 / x\<rceil>)"
    unfolding n_def by simp
qed

declare halvings.simps [simp del] doublings.simps [simp del]

definition exponent :: "rat \<Rightarrow> int" where
  "exponent x = (if 1 \<le> x then int (halvings x) else - int (doublings x))"

text \<open>The spacing of the binary64 values around \<open>x\<close>: one unit in the 53rd bit.\<close>

definition ulp :: "rat \<Rightarrow> rat" where
  "ulp x = 2 powi (exponent x - 52)"

definition round_half_even :: "rat \<Rightarrow> int" where
  "round_half_even y =
     (let f = \<lfloor>y\<rfloor>; r = y - of_int f
      in if r < 1 / 2 then f else if 1 / 2 < r then f + 1 else if even f then f else f + 1)"

definition binary64 :: "rat \<Rightarrow> rat" where
  "binary64 x =
     (if x = 0 then 0
      else sgn x * (of_int (round_half_even (\<bar>x\<bar> / ulp \<bar>x\<bar>)) * ulp \<bar>x\<bar>))"

text \<open>\<open>a / b\<close> on two counters.\<close>

definition js_div :: "nat \<Rightarrow> nat \<Rightarrow> number" where
  "js_div a b =
     (if b = 0 then (if a = 0 then NaN else Infinity)
      else Num (binary64 (of_nat a / of_nat b)))"

text \<open>\<open>x * k\<close> for a positive finite constant \<open>k\<close>.\<close>

fun js_times :: "number \<Rightarrow> rat \<Rightarrow> number" where
  "js_times (Num x) k = Num (binary64 (x * k))"
| "js_times Infinity k = Infinity"
| "js_times NaN k = NaN"

text \<open>\<open>Math.round\<close>: the nearest integer, a tie going up; exact on every finite value.\<close>

fun Math_round :: "number \<Rightarrow> number" where
  "Math_round (Num x) = Num (of_int \<lfloor>x + 1 / 2\<rfloor>)"
| "Math_round Infinity = Infinity"
| "Math_round NaN = NaN"

section \<open>The document tree\<close>

text \<open>
  An element with its tag name, its attributes, its class list, the \<open>checked\<close> property
  and its child elements. Tag names and the value of \<open>type\<close> are kept in lower case, as
  selectors match them in an HTML document; text nodes play no part in the scripts.
\<close>

datatype element =
  Element (tagName: string) (attributes: "(string \<times> string) list")
    (classList: "string list") (checked: bool) (children: "element list")

datatype document = Document (documentElement: element)

text \<open>All elements below \<open>e\<close>, in document order.\<close>

fun descendants :: "element \<Rightarrow> element list" where
  "descendants (Element t a c k es) = concat (map (\<lambda>e. e # descendants e) es)"

definition getAttribute :: "element \<Rightarrow> string \<Rightarrow> string option" where
  "getAttribute e name = map_of (attributes e) name"

text \<open>The \<open>id\<close> property: the attribute, or the empty string.\<close>

definition element_id :: "element \<Rightarrow> string" where
  "element_id e = (case getAttribute e ''id'' of None \<Rightarrow> [] | Some v \<Rightarrow> v)"

text \<open>The selectors the scripts use.\<close>

datatype selector =
    Tag string                    \<comment> \<open>\<open>li\<close>, \<open>article\<close>\<close>
  | Class string                  \<comment> \<open>\<open>.md-typeset\<close>\<close>
  | TagClass string string        \<comment> \<open>\<open>li.task-list-item\<close>\<close>
  | TagAttr string string string  \<comment> \<open>\<open>input[type="checkbox"]\<close>\<close>

fun matches :: "selector \<Rightarrow> element \<Rightarrow> bool" where
  "matches (Tag t) e = (tagName e = t)"
| "matches (Class c) e = (c \<in> set (classList e))"
| "matches (TagClass t c) e = (tagName e = t \<and> c \<in> set (classList e))"
| "matches (TagAttr t a v) e = (tagName e = t \<and> getAttribute e a = Some v)"

definition querySelectorAll :: "element \<Rightarrow> selector \<Rightarrow> element list" where
  "querySelectorAll e s = filter (matches s) (descendants e)"

definition querySelector :: "element \<Rightarrow> selector \<Rightarrow> element option" where
  "querySelector e s = find (matches s) (descendants e)"

definition doc_elements :: "document \<Rightarrow> element list" where
  "doc_elements d = documentElement d # descendants (documentElement d)"

definition doc_querySelectorAll :: "document \<Rightarrow> selector \<Rightarrow> element list" where
  "doc_querySelectorAll d s = filter (matches s) (doc_elements d)"

definition doc_querySelector :: "document \<Rightarrow> selector \<Rightarrow> element option" where
  "doc_querySelector d s = find (matches s) (doc_elements d)"

definition getElementById :: "document \<Rightarrow> string \<Rightarrow> element option" where
  "getElementById d i = find (\<lambda>e. getAttribute e ''id'' = Some i) (doc_elements d)"

text \<open>\<open>document.body\<close>: the first \<open>body\<close> child of the root element, if there is one.\<close>

definition body :: "document \<Rightarrow> element option" where
  "body d = find (\<lambda>e. tagName e = ''body'') (children (documentElement d))"

section \<open>The page scanner (individual-progress.js)\<close>

record progress =
  completed :: nat
  total :: nat
  percentage :: number

text \<open>
  The body of the \<open>forEach\<close> in \<open>parseCurrentPageProgress\<close>; the state is the pair
  \<open>(totalCheckboxes, completedCheckboxes)\<close>.
\<close>

definition scanner_item :: "element \<Rightarrow> nat \<times> nat \<Rightarrow> nat \<times> nat" where
  "scanner_item item = (\<lambda>(totalCheckboxes, completedCheckboxes).
     (case querySelector item (TagAttr ''input'' ''type'' ''checkbox'') of
        None \<Rightarrow> (totalCheckboxes, completedCheckboxes)
      | Some checkboxInput \<Rightarrow>
          if element_id checkboxInput \<noteq> ''__toc'' \<and>
             element_id checkboxInput \<noteq> ''__drawer'' \<and>
             element_id checkboxInput \<noteq> ''__search''
          then (totalCheckboxes + 1,
                if checked checkboxInput then completedCheckboxes + 1 else completedCheckboxes)
          else (totalCheckboxes, completedCheckboxes)))"

definition parseCurrentPageProgress :: "document \<Rightarrow> progress" where
  "parseCurrentPageProgress d =
     (let taskListItems = doc_querySelectorAll d (TagClass ''li'' ''task-list-item'');
          (totalCheckboxes, completedCheckboxes) = fold scanner_item taskListItems (0, 0);
          percentage = (if totalCheckboxes = 0 then Num 0
                        else Math_round (js_times (js_div completedCheckboxes totalCheckboxes) 100))
      in \<lparr>completed = completedCheckboxes, total = totalCheckboxes, percentage = percentage\<rparr>)"

section \<open>The browser\<close>

text \<open>
  What the scripts take from their environment. \<open>fetch\<close> is the network: for a URL,
  either the promise rejects (a transport error) or it resolves to a response. The two
  ways a response is read, \<open>response.text()\<close> and \<open>response.json()\<close>, are fields that hold
  what the call resolves to, \<open>None\<close> when it rejects. A parsed search index is a record
  with its \<open>docs\<close>; an entry has a \<open>location\<close> and, possibly, a \<open>title\<close>.
  \<open>parseFromString\<close> is \<open>DOMParser\<close> on \<open>text/html\<close>; \<open>URL_href\<close> is
  \<open>new URL(path, window.location.href).href\<close>, \<open>None\<close> when the constructor throws;
  \<open>toUpperCase\<close> and \<open>localeCompare\<close> are the string built-ins.
\<close>

record index_entry =
  location :: string
  title :: "string option"

datatype search_index = SearchIndex (docs: "index_entry list")

datatype response =
  Response (ok: bool) (status: nat) (statusText: string)
    (text_result: "string option") (json_result: "search_index option")

datatype fetch_result = Rejected | Resolved response

record browser =
  origin :: string
  pathname :: string
  fetch :: "string \<Rightarrow> fetch_result"
  parseFromString :: "string \<Rightarrow> document"
  URL_href :: "string \<Rightarrow> string option"
  toUpperCase :: "string \<Rightarrow> string"
  localeCompare :: "string \<Rightarrow> string \<Rightarrow> int"

datatype exception = FetchRejected | BodyRejected | InvalidURL

text \<open>
  A call of \<open>console.log\<close>, \<open>console.warn\<close> or \<open>console.error\<close>, with the text of its
  message as the source writes it (the \<open>${...}\<close> parts are not filled in).
\<close>

datatype console_call = Console_log string | Console_warn string | Console_error string

record tracked_page =
  page_id :: string
  name :: string
  path :: string

text \<open>
  What a script changes while it runs: the console, the requests sent, the scripts
  appended to \<open>document.head\<close>, the dashboard container (the markup assigned to its
  \<open>innerHTML\<close> and the cards appended to it, a card being the merged object
  \<open>{...file, ...progress}\<close> it is rendered from) and the variable \<open>filesToTrack\<close> of the
  second dashboard script.
\<close>

record page_state =
  console :: "console_call list"
  requests :: "string list"
  head_scripts :: "string list"
  innerHTML :: string
  fileCards :: "(tracked_page \<times> progress) list"
  filesToTrack :: "tracked_page list"

definition console_call :: "console_call \<Rightarrow> page_state \<Rightarrow> page_state" where
  "console_call c w = w\<lparr>console := console w @ [c]\<rparr>"

text \<open>Assigning \<open>innerHTML\<close> replaces the children of the container.\<close>

definition set_innerHTML :: "string \<Rightarrow> page_state \<Rightarrow> page_state" where
  "set_innerHTML markup w = w\<lparr>innerHTML := markup, fileCards := []\<rparr>"

definition appendChild :: "tracked_page \<times> progress \<Rightarrow> page_state \<Rightarrow> page_state" where
  "appendChild fileCard w = w\<lparr>fileCards := fileCards w @ [fileCard]\<rparr>"

definition send_request :: "string \<Rightarrow> page_state \<Rightarrow> page_state" where
  "send_request url w = w\<lparr>requests := requests w @ [url]\<rparr>"

definition tailwind :: string where
  "tailwind = ''https://cdn.tailwindcss.com''"

definition no_progress :: progress where
  "no_progress = \<lparr>completed = 0, total = 0, percentage = Num 0\<rparr>"

section \<open>The first dashboard script (progress.js, a fixed list of pages)\<close>

definition filesToTrack_static :: "tracked_page list" where
  "filesToTrack_static =
     [\<lparr>page_id = ''project-setup'', name = ''Project Setup Tasks'', path = ''project_setup/''\<rparr>,
      \<lparr>page_id = ''frontend'', name = ''Frontend Development'', path = ''frontend/''\<rparr>,
      \<lparr>page_id = ''backend'', name = ''Backend Development'', path = ''backend/''\<rparr>]"

text \<open>The \<open>try\<close> block of \<open>fetchHtmlContent\<close>; a rejected promise is an \<open>Inl\<close>.\<close>

definition fetchHtmlContent_static_try ::
  "browser \<Rightarrow> string \<Rightarrow> page_state \<Rightarrow> (exception + string) \<times> page_state" where
  "fetchHtmlContent_static_try b fullUrl w =
     (let w1 = console_call (Console_log ''Attempting to fetch HTML from: ${fullUrl}'') w;
          w2 = send_request fullUrl w1
      in case fetch b fullUrl of
           Rejected \<Rightarrow> (Inl FetchRejected, w2)
         | Resolved response \<Rightarrow>
             if \<not> ok response
             then (Inr [],
                   console_call (Console_error
                     ''Fetch failed for ${fullUrl}. Status: ${response.status} - ${response.statusText}'') w2)
             else (case text_result response of
                     None \<Rightarrow> (Inl BodyRejected, w2)
                   | Some htmlContent \<Rightarrow>
                       (Inr htmlContent,
                        console_call (Console_log
                          ''Successfully fetched HTML for ${fullUrl}. Content starts with:'') w2)))"

text \<open>The URL is built before the \<open>try\<close>, so a throwing constructor is not caught.\<close>

definition fetchHtmlContent_static ::
  "browser \<Rightarrow> string \<Rightarrow> page_state \<Rightarrow> (exception + string) \<times> page_state" where
  "fetchHtmlContent_static b pagePath w =
     (case URL_href b pagePath of
        None \<Rightarrow> (Inl InvalidURL, w)
      | Some fullUrl \<Rightarrow>
          (case fetchHtmlContent_static_try b fullUrl w of
             (Inl error, w') \<Rightarrow>
               (Inr [], console_call (Console_error ''Error during fetch operation for ${fullUrl}:'') w')
           | (Inr htmlContent, w') \<Rightarrow> (Inr htmlContent, w')))"

definition contentArea_static :: "document \<Rightarrow> element option" where
  "contentArea_static doc =
     (case doc_querySelector doc (Class ''md-typeset'') of
        Some e \<Rightarrow> Some e
      | None \<Rightarrow>
          (case doc_querySelector doc (Tag ''article'') of
             Some e \<Rightarrow> Some e
           | None \<Rightarrow> body doc))"

text \<open>The body of the \<open>forEach\<close> over all list items of the content area.\<close>

definition static_item :: "element \<Rightarrow> nat \<times> nat \<Rightarrow> nat \<times> nat" where
  "static_item item = (\<lambda>(totalCheckboxes, completedCheckboxes).
     (let checkboxInput = querySelector item (TagAttr ''input'' ''type'' ''checkbox'')
      in if ''task-list-item'' \<in> set (classList item) \<or> checkboxInput \<noteq> None
         then (totalCheckboxes + 1,
               if getAttribute item ''data-checked'' = Some ''true'' then completedCheckboxes + 1
               else if (case checkboxInput of None \<Rightarrow> False | Some c \<Rightarrow> checked c)
                    then completedCheckboxes + 1
                    else completedCheckboxes)
         else (totalCheckboxes, completedCheckboxes)))"

definition parseHtmlProgress_static :: "browser \<Rightarrow> string \<Rightarrow> progress" where
  "parseHtmlProgress_static b htmlContent =
     (if htmlContent = [] then no_progress
      else
        (case contentArea_static (parseFromString b htmlContent) of
           None \<Rightarrow> no_progress
         | Some contentArea \<Rightarrow>
             (let allListItems = querySelectorAll contentArea (Tag ''li'');
                  (totalCheckboxes, completedCheckboxes) = fold static_item allListItems (0, 0);
                  percentage = (if totalCheckboxes = 0 then Num 0
                                else Math_round (js_times (js_div completedCheckboxes totalCheckboxes) 100))
              in \<lparr>completed = completedCheckboxes, total = totalCheckboxes,
                  percentage = percentage\<rparr>)))"

text \<open>What \<open>parseHtmlProgress\<close> writes to the console.\<close>

definition parseHtmlProgress_static_console :: "browser \<Rightarrow> string \<Rightarrow> console_call" where
  "parseHtmlProgress_static_console b htmlContent =
     (if htmlContent = [] then Console_warn ''parseHtmlProgress received empty HTML content.''
      else if contentArea_static (parseFromString b htmlContent) = None
      then Console_warn
             ''Could not find a suitable content area in fetched HTML for checkbox parsing.''
      else Console_log ''Parsed progress: Total=${totalCheckboxes}, Completed=${completedCheckboxes}'')"

text \<open>
  The loop of \<open>renderProgressDashboard\<close>: one fetch after the other, each awaited; a
  rejection ends the loop.
\<close>

fun aggregate_static ::
  "browser \<Rightarrow> tracked_page list \<Rightarrow> (tracked_page \<times> progress) list \<Rightarrow> page_state
     \<Rightarrow> (exception + (tracked_page \<times> progress) list) \<times> page_state" where
  "aggregate_static b [] allProgressData w = (Inr allProgressData, w)"
| "aggregate_static b (file # files) allProgressData w =
     (case fetchHtmlContent_static b (path file) w of
        (Inl error, w') \<Rightarrow> (Inl error, w')
      | (Inr htmlContent, w') \<Rightarrow>
          aggregate_static b files
            (allProgressData @ [(file, parseHtmlProgress_static b htmlContent)])
            (console_call (parseHtmlProgress_static_console b htmlContent) w'))"

definition loading_progress :: string where
  \<open>loading_progress = ''<p class="text-center text-gray-500">Loading progress...</p>''\<close>

definition no_progress_data :: string where
  \<open>no_progress_data = ''<p class="text-center text-gray-500">No progress data found or failed to load.</p>''\<close>

definition renderProgressDashboard ::
  "browser \<Rightarrow> page_state \<Rightarrow> (exception + unit) \<times> page_state" where
  "renderProgressDashboard b w =
     (let w1 = set_innerHTML loading_progress w
      in case aggregate_static b filesToTrack_static [] w1 of
           (Inl error, w2) \<Rightarrow> (Inl error, w2)
         | (Inr allProgressData, w2) \<Rightarrow>
             (let w3 = set_innerHTML [] w2
              in if allProgressData = []
                 then (Inr (), set_innerHTML no_progress_data w3)
                 else (Inr (), fold appendChild allProgressData w3)))"

text \<open>The \<open>DOMContentLoaded\<close> handler.\<close>

definition container_not_found_static :: string where
  "container_not_found_static =
     ''Progress dashboard container not found. Make sure an element with id 'progress-dashboard-container' exists.''"

definition static_dashboard ::
  "browser \<Rightarrow> document \<Rightarrow> page_state \<Rightarrow> (exception + unit) \<times> page_state" where
  "static_dashboard b doc w =
     (case getElementById doc ''progress-dashboard-container'' of
        None \<Rightarrow> (Inr (), console_call (Console_warn container_not_found_static) w)
      | Some progressContainer \<Rightarrow>
          renderProgressDashboard b (w\<lparr>head_scripts := head_scripts w @ [tailwind]\<rparr>))"

section \<open>The second dashboard script (progress.js, pages found in the search index)\<close>

subsection \<open>String built-ins\<close>

definition startsWith :: "string \<Rightarrow> string \<Rightarrow> bool" where
  "startsWith s p = (take (length p) s = p)"

definition endsWith :: "string \<Rightarrow> string \<Rightarrow> bool" where
  "endsWith s p = (length p \<le> length s \<and> drop (length s - length p) s = p)"

definition js_includes :: "string \<Rightarrow> char \<Rightarrow> bool" where
  "js_includes s c = (c \<in> set s)"

text \<open>\<open>s.split(c)\<close> for a separator of one character: never empty, \<open>''.split('/')\<close> is \<open>['']\<close>.\<close>

fun js_split :: "char \<Rightarrow> string \<Rightarrow> string list" where
  "js_split c [] = [[]]"
| "js_split c (x # xs) =
     (if x = c then [] # js_split c xs
      else (case js_split c xs of [] \<Rightarrow> [[x]] | piece # pieces \<Rightarrow> (x # piece) # pieces))"

text \<open>\<open>s.replace(/suffix$/, '')\<close> and \<open>s.replace(/c/g, d)\<close>.\<close>

definition replace_suffix :: "string \<Rightarrow> string \<Rightarrow> string" where
  "replace_suffix suffix s = (if endsWith s suffix then take (length s - length suffix) s else s)"

definition replace_all :: "char \<Rightarrow> char \<Rightarrow> string \<Rightarrow> string" where
  "replace_all c d s = map (\<lambda>x. if x = c then d else x) s"

text \<open>
  \<open>xs.sort(compare)\<close>: the sort is stable; with a comparator that is a consistent
  ordering it is an insertion of each element before the first one not smaller.
\<close>

fun js_insert :: "('a \<Rightarrow> 'a \<Rightarrow> int) \<Rightarrow> 'a \<Rightarrow> 'a list \<Rightarrow> 'a list" where
  "js_insert compare x [] = [x]"
| "js_insert compare x (y # ys) =
     (if compare x y \<le> 0 then x # y # ys else y # js_insert compare x ys)"

definition js_sort :: "('a \<Rightarrow> 'a \<Rightarrow> int) \<Rightarrow> 'a list \<Rightarrow> 'a list" where
  "js_sort compare xs = foldr (js_insert compare) xs []"

subsection \<open>The script\<close>

definition getBasePath :: "browser \<Rightarrow> string" where
  "getBasePath b =
     (if startsWith (pathname b) ''/progress-tracker/'' then ''/progress-tracker/'' else ''/'')"

definition SITE_BASE_PATH :: "browser \<Rightarrow> string" where
  "SITE_BASE_PATH b = getBasePath b"

definition fetchHtmlContent_try ::
  "browser \<Rightarrow> string \<Rightarrow> page_state \<Rightarrow> (exception + string) \<times> page_state" where
  "fetchHtmlContent_try b fullUrl w =
     (let w1 = console_call (Console_log ''[progress.js] Attempting to fetch HTML for: ${fullUrl}'') w;
          w2 = send_request fullUrl w1
      in case fetch b fullUrl of
           Rejected \<Rightarrow> (Inl FetchRejected, w2)
         | Resolved response \<Rightarrow>
             if \<not> ok response
             then (Inr [],
                   console_call (Console_error
                     ''[progress.js] Fetch failed for ${fullUrl}. Status: ${response.status} - ${response.statusText}'') w2)
             else (case text_result response of
                     None \<Rightarrow> (Inl BodyRejected, w2)
                   | Some htmlContent \<Rightarrow>
                       (Inr htmlContent,
                        console_call (Console_log
                          ''[progress.js] Successfully fetched HTML for ${fullUrl}. Content starts with:'') w2)))"

definition fetchHtmlContent ::
  "browser \<Rightarrow> string \<Rightarrow> page_state \<Rightarrow> (exception + string) \<times> page_state" where
  "fetchHtmlContent b pagePath w =
     (let fullUrl = origin b @ SITE_BASE_PATH b @ pagePath
      in case fetchHtmlContent_try b fullUrl w of
           (Inl error, w') \<Rightarrow>
             (Inr [], console_call (Console_error
                ''[progress.js] Error during fetch operation for ${fullUrl}:'') w')
         | (Inr htmlContent, w') \<Rightarrow> (Inr htmlContent, w'))"

text \<open>The body of the \<open>forEach\<close> over the task list items.\<close>

definition dynamic_item :: "element \<Rightarrow> nat \<times> nat \<Rightarrow> nat \<times> nat" where
  "dynamic_item item = (\<lambda>(totalCheckboxes, completedCheckboxes).
     (case querySelector item (TagAttr ''input'' ''type'' ''checkbox'') of
        None \<Rightarrow> (totalCheckboxes, completedCheckboxes)
      | Some checkboxInput \<Rightarrow>
          (totalCheckboxes + 1,
           if checked checkboxInput then completedCheckboxes + 1 else completedCheckboxes)))"

definition parseHtmlProgress :: "browser \<Rightarrow> string \<Rightarrow> progress" where
  "parseHtmlProgress b htmlContent =
     (if htmlContent = [] then no_progress
      else
        (let doc = parseFromString b htmlContent;
             taskListItems = doc_querySelectorAll doc (TagClass ''li'' ''task-list-item'');
             (totalCheckboxes, completedCheckboxes) = fold dynamic_item taskListItems (0, 0);
             percentage = (if totalCheckboxes = 0 then Num 0
                           else Math_round (js_times (js_div completedCheckboxes totalCheckboxes) 100))
         in \<lparr>completed = completedCheckboxes, total = totalCheckboxes,
             percentage = percentage\<rparr>))"

definition parseHtmlProgress_console :: "string \<Rightarrow> console_call" where
  "parseHtmlProgress_console htmlContent =
     (if htmlContent = []
      then Console_warn ''[progress.js] parseHtmlProgress received empty HTML content.''
      else Console_log
             ''[progress.js] Parsed progress: Total=${totalCheckboxes}, Completed=${completedCheckboxes}'')"

text \<open>The callback of \<open>filter\<close> in \<open>populateFilesToTrack\<close>, on the location of an entry.\<close>

definition isTopLevelPage :: "string \<Rightarrow> bool" where
  "isTopLevelPage loc =
     (\<not> js_includes loc CHR ''/'' \<or>
      (endsWith loc ''/'' \<and> length (js_split CHR ''/'' loc) \<le> 2))"

definition filter_doc :: "index_entry \<Rightarrow> bool" where
  "filter_doc doc =
     (if location doc = ''index/'' \<or> location doc = ''index.md'' \<or> location doc = ''index.html''
      then False
      else isTopLevelPage (location doc))"

text \<open>The callback of \<open>map\<close>; a missing and an empty title are both falsy.\<close>

definition derived_name :: "browser \<Rightarrow> string \<Rightarrow> string" where
  "derived_name b loc =
     (let name1 = replace_suffix ''/'' (replace_suffix ''.html'' (replace_suffix ''.md'' loc));
          name2 = last (js_split CHR ''/'' name1);
          name3 = replace_all CHR ''_'' CHR '' '' name2
      in toUpperCase b (take 1 name3) @ drop 1 name3)"

definition map_doc :: "browser \<Rightarrow> index_entry \<Rightarrow> tracked_page" where
  "map_doc b doc =
     \<lparr>page_id = replace_suffix ''.html'' (replace_suffix ''.md''
                   (replace_all CHR ''/'' CHR ''-'' (location doc))),
      name = (case title doc of
                None \<Rightarrow> derived_name b (location doc)
              | Some t \<Rightarrow> if t = [] then derived_name b (location doc) else t),
      path = location doc\<rparr>"

definition searchIndexUrl :: "browser \<Rightarrow> string" where
  "searchIndexUrl b = origin b @ SITE_BASE_PATH b @ ''search/search_index.json''"

definition index_fetch_error :: string where
  \<open>index_fetch_error = ''<p class="text-center text-red-500">Error loading progress: Could not fetch search index. Please check console for details.</p>''\<close>

definition index_parse_error :: string where
  \<open>index_parse_error = ''<p class="text-center text-red-500">Error loading progress: Failed to parse search index data. Check console.</p>''\<close>

definition no_tracked_pages :: string where
  \<open>no_tracked_pages = ''<p class="text-center text-gray-500">No other tracked pages found (excluding this dashboard page). Ensure your Markdown files are in the `docs/` root and listed in `mkdocs.yml` nav.</p>''\<close>

definition populateFilesToTrack_try ::
  "browser \<Rightarrow> page_state \<Rightarrow> (exception + unit) \<times> page_state" where
  "populateFilesToTrack_try b w =
     (let w1 = console_call (Console_log
                 ''[progress.js] Attempting to fetch search index: ${searchIndexUrl}'') w;
          w2 = send_request (searchIndexUrl b) w1
      in case fetch b (searchIndexUrl b) of
           Rejected \<Rightarrow> (Inl FetchRejected, w2)
         | Resolved response \<Rightarrow>
             if \<not> ok response
             then (Inr (),
                   set_innerHTML index_fetch_error
                     (console_call (Console_error
                        ''[progress.js] Failed to fetch search index. Status: ${response.status} - ${response.statusText}. Ensure search plugin is enabled and MkDocs is built.'') w2))
             else (case json_result response of
                     None \<Rightarrow> (Inl BodyRejected, w2)
                   | Some searchIndex \<Rightarrow>
                       (let w3 = console_call (Console_log ''[progress.js] Search index fetched:'') w2;
                            w4 = w3\<lparr>filesToTrack :=
                                   js_sort (\<lambda>x y. localeCompare b (name x) (name y))
                                     (map (map_doc b) (filter filter_doc (docs searchIndex)))\<rparr>
                        in (Inr (), console_call (Console_log
                              ''[progress.js] Dynamically populated filesToTrack:'') w4))))"

definition populateFilesToTrack :: "browser \<Rightarrow> page_state \<Rightarrow> page_state" where
  "populateFilesToTrack b w =
     (case populateFilesToTrack_try b w of
        (Inl error, w') \<Rightarrow>
          set_innerHTML index_parse_error
            (console_call (Console_error
               ''[progress.js] Error fetching or parsing search index:'') w')
      | (Inr u, w') \<Rightarrow> w')"

text \<open>The loop of \<open>renderConsolidatedDashboard\<close>.\<close>

fun aggregate ::
  "browser \<Rightarrow> tracked_page list \<Rightarrow> (tracked_page \<times> progress) list \<Rightarrow> page_state
     \<Rightarrow> (exception + (tracked_page \<times> progress) list) \<times> page_state" where
  "aggregate b [] allProgressData w = (Inr allProgressData, w)"
| "aggregate b (file # files) allProgressData w =
     (case fetchHtmlContent b (path file) w of
        (Inl error, w') \<Rightarrow> (Inl error, w')
      | (Inr htmlContent, w') \<Rightarrow>
          aggregate b files
            (allProgressData @ [(file, parseHtmlProgress b htmlContent)])
            (console_call (parseHtmlProgress_console htmlContent) w'))"

definition loading_task_progress :: string where
  \<open>loading_task_progress = ''<p class="text-center text-gray-500">Loading task progress...</p>''\<close>

definition no_progress_data_for_tracked_pages :: string where
  \<open>no_progress_data_for_tracked_pages = ''<p class="text-center text-gray-500">No progress data found or failed to load for tracked pages.</p>''\<close>

definition renderConsolidatedDashboard ::
  "browser \<Rightarrow> page_state \<Rightarrow> (exception + unit) \<times> page_state" where
  "renderConsolidatedDashboard b w =
     (let w1 = set_innerHTML loading_task_progress w;
          w2 = populateFilesToTrack b w1
      in if filesToTrack w2 = []
         then (Inr (), set_innerHTML no_tracked_pages w2)
         else
           (case aggregate b (filesToTrack w2) [] w2 of
              (Inl error, w3) \<Rightarrow> (Inl error, w3)
            | (Inr allProgressData, w3) \<Rightarrow>
                (let w4 = set_innerHTML [] w3
                 in if allProgressData = []
                    then (Inr (), set_innerHTML no_progress_data_for_tracked_pages w4)
                    else (Inr (), fold appendChild allProgressData w4))))"

text \<open>The \<open>DOMContentLoaded\<close> handler; \<open>filesToTrack\<close> starts empty.\<close>

definition container_not_found :: string where
  "container_not_found =
     ''Progress dashboard container not found on this page. This script is intended for index.md.''"

definition dynamic_dashboard ::
  "browser \<Rightarrow> document \<Rightarrow> page_state \<Rightarrow> (exception + unit) \<times> page_state" where
  "dynamic_dashboard b doc w =
     (case getElementById doc ''progress-dashboard-container'' of
        None \<Rightarrow> (Inr (), console_call (Console_log container_not_found) w)
      | Some progressDashboardContainer \<Rightarrow>
          renderConsolidatedDashboard b
            (w\<lparr>filesToTrack := [], head_scripts := head_scripts w @ [tailwind]\<rparr>))"

section \<open>Notions used to state the properties\<close>

text \<open>
  The navigation controls of the theme (table of contents, drawer, search) are checkbox
  inputs too; the page scanner tells them by their \<open>id\<close>.
\<close>

definition nav_control :: "element \<Rightarrow> bool" where
  "nav_control e =
     (element_id e = ''__toc'' \<or> element_id e = ''__drawer'' \<or> element_id e = ''__search'')"

text \<open>The first checkbox input inside a list item, in document order.\<close>

definition first_checkbox :: "element \<Rightarrow> element option" where
  "first_checkbox item = querySelector item (TagAttr ''input'' ''type'' ''checkbox'')"

definition counted_item :: "element \<Rightarrow> bool" where
  "counted_item item =
     (case first_checkbox item of None \<Rightarrow> False | Some c \<Rightarrow> \<not> nav_control c)"

definition checked_item :: "element \<Rightarrow> bool" where
  "checked_item item =
     (case first_checkbox item of None \<Rightarrow> False | Some c \<Rightarrow> \<not> nav_control c \<and> checked c)"

text \<open>
  The task checkboxes of the specification: every checkbox input that lies inside a list
  item flagged as a task item and is not a navigation control. The flag \<open>inside\<close> says
  that an ancestor is such a list item.
\<close>

fun task_checkboxes_below :: "bool \<Rightarrow> element \<Rightarrow> element list" where
  "task_checkboxes_below inside (Element t a c k es) =
     (if inside \<and> matches (TagAttr ''input'' ''type'' ''checkbox'') (Element t a c k es)
         \<and> \<not> nav_control (Element t a c k es)
      then [Element t a c k es] else []) @
     concat (map (task_checkboxes_below
                    (inside \<or> matches (TagClass ''li'' ''task-list-item'') (Element t a c k es))) es)"

definition spec_task_checkboxes :: "document \<Rightarrow> element list" where
  "spec_task_checkboxes d = task_checkboxes_below False (documentElement d)"

text \<open>
  The two exclusions of the discovery resolver in the words of the specification. An
  index entry is the page of the dashboard itself when its address, as the aggregator
  requests it, is the address of the page the script runs on. A location is nested
  beyond one level when it has a \<open>/\<close> before its last character.
\<close>

definition spec_dashboard_page :: "browser \<Rightarrow> string \<Rightarrow> bool" where
  "spec_dashboard_page b loc = (origin b @ SITE_BASE_PATH b @ loc = origin b @ pathname b)"

definition spec_nested_beyond_one_level :: "string \<Rightarrow> bool" where
  "spec_nested_beyond_one_level loc = (CHR ''/'' \<in> set (butlast loc))"

text \<open>
  A fetch fails when the promise rejects or the response is not \<open>ok\<close>; \<open>fetched_text\<close> is
  the text \<open>fetchHtmlContent\<close> hands to the parser for a page path.
\<close>

definition fetch_failed :: "browser \<Rightarrow> string \<Rightarrow> bool" where
  "fetch_failed b pagePath =
     (case fetch b (origin b @ SITE_BASE_PATH b @ pagePath) of
        Rejected \<Rightarrow> True
      | Resolved response \<Rightarrow> \<not> ok response)"

definition fetched_text :: "browser \<Rightarrow> string \<Rightarrow> string" where
  "fetched_text b pagePath =
     (case fetch b (origin b @ SITE_BASE_PATH b @ pagePath) of
        Rejected \<Rightarrow> []
      | Resolved response \<Rightarrow>
          if \<not> ok response then []
          else (case text_result response of None \<Rightarrow> [] | Some htmlContent \<Rightarrow> htmlContent))"

definition fetched_text_static :: "browser \<Rightarrow> string \<Rightarrow> string" where
  "fetched_text_static b fullUrl =
     (case fetch b fullUrl of
        Rejected \<Rightarrow> []
      | Resolved response \<Rightarrow>
          if \<not> ok response then []
          else (case text_result response of None \<Rightarrow> [] | Some htmlContent \<Rightarrow> htmlContent))"

text \<open>A comparator that orders: any two elements compare, and the order is transitive.\<close>

definition consistent_comparator :: "('a \<Rightarrow> 'a \<Rightarrow> int) \<Rightarrow> bool" where
  "consistent_comparator compare =
     ((\<forall>x y. compare x y \<le> 0 \<or> compare y x \<le> 0) \<and>
      (\<forall>x y z. compare x y \<le> 0 \<longrightarrow> compare y z \<le> 0 \<longrightarrow> compare x z \<le> 0))"

text \<open>\<open>100 * c / t\<close> lies exactly halfway between two integers.\<close>

definition halfway :: "nat \<Rightarrow> nat \<Rightarrow> bool" where
  "halfway c t = (t dvd 200 * c \<and> odd (200 * c div t))"

text \<open>
  The shape of every result: no more tasks completed than counted, and the percentage
  computed from the two counts by the guarded expression of the source.
\<close>

definition well_formed :: "progress \<Rightarrow> bool" where
  "well_formed r =
     (completed r \<le> total r \<and>
      percentage r = (if total r = 0 then Num 0
                      else Math_round (js_times (js_div (completed r) (total r)) 100)))"

section \<open>Sample pages\<close>

definition checkbox_input :: "string \<Rightarrow> bool \<Rightarrow> element" where
  "checkbox_input i k =
     Element ''input'' ((''type'', ''checkbox'') # (if i = [] then [] else [(''id'', i)])) [] k []"

definition task_item :: "element list \<Rightarrow> element" where
  "task_item es = Element ''li'' [] [''task-list-item''] False es"

definition html_page :: "element list \<Rightarrow> document" where
  "html_page es =
     Document (Element ''html'' [] [] False
       [Element ''head'' [] [] False [], Element ''body'' [] [] False es])"

text \<open>Three tasks, two of them done: the text of the page and its document.\<close>

definition three_tasks_html :: string where
  \<open>three_tasks_html = ''<ul class="task-list"><li class="task-list-item"><input type="checkbox" checked> design</li><li class="task-list-item"><input type="checkbox"> build</li><li class="task-list-item"><input type="checkbox" checked> test</li></ul>''\<close>

definition page_three_tasks :: document where
  "page_three_tasks =
     html_page [Element ''ul'' [] [''task-list''] False
       [task_item [checkbox_input [] True], task_item [checkbox_input [] False],
        task_item [checkbox_input [] True]]]"

text \<open>One task item that holds two checkboxes.\<close>

definition page_two_checkboxes :: document where
  "page_two_checkboxes =
     html_page [Element ''ul'' [] [] False
       [task_item [checkbox_input [] True, checkbox_input [] False]]]"

text \<open>Forty tasks, twenty-three of them done.\<close>

definition page_forty_tasks :: document where
  "page_forty_tasks =
     html_page [Element ''ul'' [] [''task-list''] False
       (replicate 23 (task_item [checkbox_input [] True]) @
        replicate 17 (task_item [checkbox_input [] False]))]"

text \<open>A task item whose first checkbox carries the \<open>id\<close> of a navigation control.\<close>

definition toc_item_html :: string where
  \<open>toc_item_html = ''<ul><li class="task-list-item"><input type="checkbox" id="__toc"></li></ul>''\<close>

definition page_toc_item :: document where
  "page_toc_item =
     html_page [Element ''ul'' [] [] False [task_item [checkbox_input ''__toc'' False]]]"

text \<open>A list item with a checkbox that is not flagged as a task item.\<close>

definition plain_item_html :: string where
  \<open>plain_item_html = ''<ul><li><input type="checkbox" checked> note</li></ul>''\<close>

definition page_plain_item :: document where
  "page_plain_item =
     html_page [Element ''ul'' [] [] False
       [Element ''li'' [] [] False [checkbox_input [] True]]]"

text \<open>The index page, with the container of the dashboard.\<close>

definition page_dashboard :: document where
  "page_dashboard =
     html_page [Element ''h1'' [(''id'', ''overview'')] [] False [],
                Element ''div'' [(''id'', ''progress-dashboard-container'')] [] False []]"

definition dashboard_html :: string where
  \<open>dashboard_html = ''<h1 id="overview">Overview</h1><div id="progress-dashboard-container"></div>''\<close>

text \<open>
  The search index of a site built with directory URLs, in the order of the site: the
  page \<open>index.md\<close> at the root, which holds the dashboard, has the empty location, a
  section of a page has the location of the page followed by its anchor.
\<close>

definition sample_index :: search_index where
  "sample_index = SearchIndex
     [\<lparr>location = [], title = Some ''Progress''\<rparr>,
      \<lparr>location = ''#overview'', title = Some ''Overview''\<rparr>,
      \<lparr>location = ''frontend/'', title = Some ''Frontend''\<rparr>,
      \<lparr>location = ''frontend/#tasks'', title = Some ''Tasks''\<rparr>,
      \<lparr>location = ''about/'', title = Some ''About''\<rparr>,
      \<lparr>location = ''guides/setup/'', title = Some ''Setup''\<rparr>,
      \<lparr>location = ''backend/'', title = None\<rparr>]"

text \<open>
  Two string built-ins for the sample: upper case for the letters \<open>a\<close> to \<open>z\<close>, and a
  comparison as in a dictionary, letters without regard to case and, between two names
  that differ in case only, lower case first.
\<close>

definition ascii_toUpperCase :: "string \<Rightarrow> string" where
  "ascii_toUpperCase s =
     map (\<lambda>c. if CHR ''a'' \<le> c \<and> c \<le> CHR ''z'' then char_of (of_char c - (32::nat)) else c) s"

definition dictionary_compare :: "string \<Rightarrow> string \<Rightarrow> int" where
  "dictionary_compare x y =
     (if ascii_toUpperCase x < ascii_toUpperCase y then - 1
      else if ascii_toUpperCase y < ascii_toUpperCase x then 1
      else if x = y then 0
      else if y < x then - 1 else 1)"

text \<open>
  A site at \<open>https://example.org/\<close>, the dashboard on its root page: the index, the root
  page and \<open>frontend/\<close> are served, \<open>backend/\<close> answers 404 and every other request fails
  in transport. The parser knows the four sample texts and takes any other text for an
  empty page.
\<close>

definition sample_browser :: browser where
  "sample_browser =
     \<lparr>origin = ''https://example.org'', pathname = ''/'',
      fetch = (\<lambda>url.
        if url = ''https://example.org/search/search_index.json''
        then Resolved (Response True 200 ''OK'' None (Some sample_index))
        else if url = ''https://example.org/''
        then Resolved (Response True 200 ''OK'' (Some dashboard_html) None)
        else if url = ''https://example.org/frontend/''
        then Resolved (Response True 200 ''OK'' (Some three_tasks_html) None)
        else if url = ''https://example.org/backend/''
        then Resolved (Response False 404 ''Not Found'' None None)
        else Rejected),
      parseFromString = (\<lambda>htmlContent.
        if htmlContent = three_tasks_html then page_three_tasks
        else if htmlContent = toc_item_html then page_toc_item
        else if htmlContent = plain_item_html then page_plain_item
        else if htmlContent = dashboard_html then page_dashboard
        else html_page []),
      URL_href = (\<lambda>pagePath. Some (''https://example.org/'' @ pagePath)),
      toUpperCase = ascii_toUpperCase,
      localeCompare = dictionary_compare\<rparr>"

text \<open>The same site when the search index is missing.\<close>

definition browser_without_index :: browser where
  "browser_without_index =
     sample_browser\<lparr>fetch := (\<lambda>url. Resolved (Response False 404 ''Not Found'' None None))\<rparr>"

text \<open>The same site when no request gets through.\<close>

definition browser_offline :: browser where
  "browser_offline = sample_browser\<lparr>fetch := (\<lambda>url. Rejected)\<rparr>"

definition fresh_page :: page_state where
  "fresh_page =
     \<lparr>console = [], requests = [], head_scripts = [], innerHTML = [], fileCards = [],
      filesToTrack = []\<rparr>"

section \<open>Rounding to binary64\<close>

lemma halvings_bounds: "1 \<le> x \<Longrightarrow> 2 ^ halvings x \<le> x \<and> x < 2 ^ Suc (halvings x)"
proof (induction x rule: halvings.induct)
  case (1 x)
  show ?case
  proof (cases "x < 2")
    case True
    then have "halvings x = 0" by (subst halvings.simps) simp
    then show ?thesis using True "1.prems" by simp
  next
    case False
    then have "1 \<le> x / 2" by simp
    with "1.IH" False have IH: "2 ^ halvings (x / 2) \<le> x / 2 \<and> x / 2 < 2 ^ Suc (halvings (x / 2))"
      by blast
    have "halvings x = Suc (halvings (x / 2))" using False by (subst halvings.simps) simp
    then show ?thesis using IH by simp
  qed
qed

lemma doublings_bounds:
  "0 < x \<Longrightarrow> x < 1 \<Longrightarrow> 1 \<le> x * 2 ^ doublings x \<and> x * 2 ^ doublings x < 2"
proof (induction x rule: doublings.induct)
  case (1 x)
  have step: "doublings x = Suc (doublings (2 * x))"
    using "1.prems" by (subst doublings.simps) simp
  show ?case
  proof (cases "2 * x < 1")
    case True
    with "1.IH" "1.prems" have "1 \<le> 2 * x * 2 ^ doublings (2 * x) \<and> 2 * x * 2 ^ doublings (2 * x) < 2"
      by simp
    then show ?thesis using step by (simp add: mult.commute mult.left_commute)
  next
    case False
    then have "doublings (2 * x) = 0" by (subst doublings.simps) simp
    then show ?thesis using step False "1.prems" by simp
  qed
qed

lemma exponent_bounds:
  assumes "0 < x"
  shows "2 powi exponent x \<le> x \<and> x < 2 powi (exponent x + 1)"
proof (cases "1 \<le> x")
  case True
  then have e: "exponent x = int (halvings x)" by (simp add: exponent_def)
  have "int (halvings x) + 1 = int (Suc (halvings x))" by simp
  then show ?thesis using halvings_bounds [OF True] unfolding e
    by (simp only: power_int_of_nat)
next
  case False
  then have x1: "x < 1" by simp
  define n where "n = doublings x"
  have e: "exponent x = - int n" using False by (simp add: exponent_def n_def)
  have b: "1 \<le> x * 2 ^ n" "x * 2 ^ n < 2" using doublings_bounds [OF assms x1] by (simp_all add: n_def)
  have p: "(2::rat) powi (- int n) = 1 / 2 ^ n" by (simp add: power_int_minus field_simps)
  have "n \<noteq> 0" using b(1) x1 by (cases n) auto
  then obtain m where m: "n = Suc m" by (cases n) auto
  have "- int n + 1 = - int m" unfolding m by simp
  then have q: "(2::rat) powi (- int n + 1) = 2 / 2 ^ n"
    by (simp add: power_int_minus field_simps m)
  show ?thesis unfolding e p q using b by (simp add: field_simps)
qed

lemma round_half_even_close: "\<bar>of_int (round_half_even y) - y\<bar> \<le> 1 / 2"
proof -
  have "of_int \<lfloor>y\<rfloor> \<le> y" "y < of_int \<lfloor>y\<rfloor> + 1" by linarith+
  then show ?thesis unfolding round_half_even_def Let_def
    by (simp add: abs_le_iff)
qed

lemma round_half_even_le: "y \<le> of_int k \<Longrightarrow> round_half_even y \<le> k"
proof -
  assume a: "y \<le> of_int k"
  then have f: "\<lfloor>y\<rfloor> \<le> k" by (simp add: floor_le_iff) 
  show ?thesis
  proof (cases "\<lfloor>y\<rfloor> = k")
    case True
    then have "y = of_int \<lfloor>y\<rfloor>" using a by (metis of_int_floor_le order_antisym)
    then show ?thesis using True unfolding round_half_even_def Let_def by simp
  next
    case False
    then have "\<lfloor>y\<rfloor> + 1 \<le> k" using f by simp
    then show ?thesis unfolding round_half_even_def Let_def by auto
  qed
qed

lemma round_half_even_ge: "of_int k \<le> y \<Longrightarrow> k \<le> round_half_even y"
proof -
  assume "of_int k \<le> y"
  then have "k \<le> \<lfloor>y\<rfloor>" by (simp add: le_floor_iff)
  then show ?thesis unfolding round_half_even_def Let_def by auto
qed

lemma ulp_pos: "0 < ulp x"
  by (simp add: ulp_def)

lemma binary64_pos_eq:
  "0 < x \<Longrightarrow> binary64 x = of_int (round_half_even (x / ulp x)) * ulp x"
  by (simp add: binary64_def)

lemma ulp_le:
  assumes "0 < x" shows "ulp x \<le> x / 2 ^ 52"
proof -
  have "ulp x = 2 powi exponent x / 2 ^ 52"
    by (simp add: ulp_def power_int_diff)
  then show ?thesis using exponent_bounds [OF assms] by (simp add: divide_right_mono)
qed

lemma binary64_error:
  assumes "0 < x" shows "\<bar>binary64 x - x\<bar> \<le> x / 2 ^ 53"
proof -
  define u where "u = ulp x"
  have u: "0 < u" by (simp add: u_def ulp_pos)
  have "binary64 x - x = (of_int (round_half_even (x / u)) - x / u) * u"
    using u by (simp add: binary64_pos_eq [OF assms] u_def field_simps)
  then have "\<bar>binary64 x - x\<bar> = \<bar>of_int (round_half_even (x / u)) - x / u\<bar> * u"
    using u by (simp add: abs_mult)
  also have "\<dots> \<le> 1 / 2 * u"
    using round_half_even_close [of "x / u"] u by (intro mult_right_mono) simp_all
  also have "\<dots> \<le> 1 / 2 * (x / 2 ^ 52)"
    using ulp_le [OF assms] by (simp add: u_def)
  finally show ?thesis by simp
qed

lemma binary64_nonneg: "0 \<le> x \<Longrightarrow> 0 \<le> binary64 x"
proof (cases "x = 0")
  case True then show ?thesis by (simp add: binary64_def)
next
  case False
  assume "0 \<le> x"
  with False have x: "0 < x" by simp
  have "of_int 0 \<le> x / ulp x" using x ulp_pos [of x] by simp
  then have "0 \<le> round_half_even (x / ulp x)" by (rule round_half_even_ge)
  then show ?thesis using ulp_pos [of x] by (simp add: binary64_pos_eq [OF x])
qed

lemma binary64_le_int:
  assumes "0 < x" "x \<le> of_int k" "x < 2 ^ 53"
  shows "binary64 x \<le> of_int k"
proof -
  define e where "e = exponent x"
  have "2 powi e \<le> x" using exponent_bounds [OF assms(1)] by (simp add: e_def)
  then have "(2::rat) powi e < 2 powi 53" using assms(3) by simp
  then have "e < 53" by (rule power_int_le_imp_less_exp [rotated]) simp_all
  define n where "n = nat (52 - e)"
  have u: "ulp x = 1 / 2 ^ n"
    using \<open>e < 53\<close> by (simp add: ulp_def e_def [symmetric] n_def power_int_def power_one_over)
  have "x / ulp x \<le> of_int (k * 2 ^ n)" using assms(2) by (simp add: u)
  then have "round_half_even (x / ulp x) \<le> k * 2 ^ n" by (rule round_half_even_le)
  then have "(of_int (round_half_even (x / ulp x)) :: rat) \<le> of_int (k * 2 ^ n)"
    by (simp only: of_int_le_iff)
  then have "of_int (round_half_even (x / ulp x)) * ulp x \<le> of_int (k * 2 ^ n) * ulp x"
    using ulp_pos [of x] by (intro mult_right_mono) simp_all
  then show ?thesis by (simp add: binary64_pos_eq [OF assms(1)] u)
qed

lemma binary64_le_int0:
  assumes "0 \<le> x" "x \<le> of_int k" "x < 2 ^ 53"
  shows "binary64 x \<le> of_int k"
proof (cases "x = 0")
  case True
  then show ?thesis using assms by (simp add: binary64_def)
next
  case False
  then show ?thesis using assms binary64_le_int [of x k] by simp
qed

text \<open>The two roundings of \<open>(c / t) * 100\<close>.\<close>

lemma scaled_quotient_bounds:
  assumes "0 < t" "c \<le> t"
  defines "f \<equiv> binary64 (binary64 (of_nat c / of_nat t) * 100)"
  shows "0 \<le> f" "f \<le> 100" "\<bar>f - 100 * of_nat c / of_nat t\<bar> \<le> 200 / 2 ^ 53"
proof -
  define q :: rat where "q = of_nat c / of_nat t"
  define g where "g = binary64 q"
  have q: "0 \<le> q" "q \<le> 1" using assms by (simp_all add: q_def)
  have g0: "0 \<le> g" unfolding g_def using q(1) by (rule binary64_nonneg)
  have "q \<le> of_int 1" "q < 2 ^ 53" using q(2) by simp_all
  with q(1) have "g \<le> of_int 1" unfolding g_def by (rule binary64_le_int0)
  then have g1: "g \<le> 1" by simp
  have gq: "\<bar>g - q\<bar> \<le> 1 / 2 ^ 53"
  proof (cases "q = 0")
    case True then show ?thesis by (simp add: g_def binary64_def)
  next
    case False
    then have "0 < q" using q(1) by simp
    then have "\<bar>g - q\<bar> \<le> q / 2 ^ 53" unfolding g_def by (rule binary64_error)
    also have "\<dots> \<le> 1 / 2 ^ 53" using q(2) by (simp add: divide_right_mono)
    finally show ?thesis .
  qed
  define y where "y = g * 100"
  have y: "0 \<le> y" "y \<le> 100" using g0 g1 by (simp_all add: y_def)
  have f: "f = binary64 y" by (simp add: f_def y_def g_def q_def)
  show "0 \<le> f" unfolding f using y(1) by (rule binary64_nonneg)
  have "y \<le> of_int 100" "y < 2 ^ 53" using y(2) by simp_all
  with y(1) have "f \<le> of_int 100" unfolding f by (rule binary64_le_int0)
  then show "f \<le> 100" by simp
  have fy: "\<bar>f - y\<bar> \<le> 100 / 2 ^ 53"
  proof (cases "y = 0")
    case True then show ?thesis by (simp add: f binary64_def)
  next
    case False
    then have "0 < y" using y(1) by simp
    then have "\<bar>f - y\<bar> \<le> y / 2 ^ 53" unfolding f by (rule binary64_error)
    also have "\<dots> \<le> 100 / 2 ^ 53" using y(2) by (simp add: divide_right_mono)
    finally show ?thesis .
  qed
  have "\<bar>100 * (g - q)\<bar> = 100 * \<bar>g - q\<bar>" by (subst abs_mult) simp
  moreover have "y - 100 * q = 100 * (g - q)" by (simp add: y_def algebra_simps)
  ultimately have "\<bar>y - 100 * q\<bar> = 100 * \<bar>g - q\<bar>" by (simp only:)
  then have "\<bar>y - 100 * q\<bar> \<le> 100 / 2 ^ 53" using gq by simp
  with fy have "\<bar>f - 100 * q\<bar> \<le> 200 / 2 ^ 53" by linarith
  then show "\<bar>f - 100 * of_nat c / of_nat t\<bar> \<le> 200 / 2 ^ 53" by (simp add: q_def)
qed

lemma percentage_range:
  assumes "0 < t" "c \<le> t"
  shows "\<exists>p. Math_round (js_times (js_div c t) 100) = Num (of_int p) \<and> 0 \<le> p \<and> p \<le> 100"
proof -
  define f where "f = binary64 (binary64 (of_nat c / of_nat t) * 100)"
  have f: "0 \<le> f" "f \<le> 100" using scaled_quotient_bounds(1,2) [OF assms] by (simp_all add: f_def)
  have "Math_round (js_times (js_div c t) 100) = Num (of_int \<lfloor>f + 1 / 2\<rfloor>)"
    using assms(1) by (simp add: js_div_def f_def)
  moreover have "0 \<le> \<lfloor>f + 1 / 2\<rfloor>" using f(1) by (simp add: le_floor_iff)
  moreover have "\<lfloor>f + 1 / 2\<rfloor> \<le> 100" using f(2) by (simp add: floor_le_iff)
  ultimately show ?thesis by blast
qed

lemma percentage_nearest:
  assumes "0 < t" "c \<le> t" "t \<le> 2 ^ 44"
    and "\<not> (t dvd 200 * c \<and> odd (200 * c div t))"
  shows "Math_round (js_times (js_div c t) 100)
         = Num (of_int \<lfloor>100 * rat_of_nat c / rat_of_nat t + 1 / 2\<rfloor>)"
proof -
  define x :: rat where "x = 100 * of_nat c / of_nat t"
  define f where "f = binary64 (binary64 (of_nat c / of_nat t) * 100)"
  define k where "k = \<lfloor>x + 1 / 2\<rfloor>"
  define T :: rat where "T = of_nat t"
  have T: "0 < T" "T \<le> 2 ^ 44" using assms(1,3) unfolding T_def
    by (simp, metis of_nat_le_iff of_nat_numeral of_nat_power)
  have err: "\<bar>f - x\<bar> \<le> 200 / 2 ^ 53"
    using scaled_quotient_bounds(3) [OF assms(1,2)] by (simp add: f_def x_def)
  have xT: "2 * T * x = of_nat (200 * c)" using T(1) by (simp add: x_def T_def)
  have k: "of_int k \<le> x + 1 / 2" "x + 1 / 2 < of_int k + 1" unfolding k_def by linarith+
  \<comment> \<open>the same two bounds, between integers\<close>
  have "2 * T * of_int k \<le> 2 * T * (x + 1 / 2)" using k(1) T(1) by simp
  also have "\<dots> = of_nat (200 * c + t)" using xT by (simp add: T_def algebra_simps)
  finally have "(of_int (2 * int t * k) :: rat) \<le> of_int (int (200 * c + t))"
    by (simp add: T_def)
  then have lo: "2 * int t * k \<le> int (200 * c + t)" by (simp only: of_int_le_iff)
  have "2 * T * (x + 1 / 2) < 2 * T * (of_int k + 1)" using k(2) T(1) by simp
  then have "(of_nat (200 * c + t) :: rat) < 2 * T * (of_int k + 1)"
    using xT by (simp add: T_def algebra_simps)
  then have "(of_int (int (200 * c + t)) :: rat) < of_int (2 * int t * (k + 1))"
    by (simp add: T_def)
  then have hi: "int (200 * c + t) < 2 * int t * (k + 1)" by (simp only: of_int_less_iff)
  have ne: "2 * int t * k \<noteq> int (200 * c + t)"
  proof
    assume eq: "2 * int t * k = int (200 * c + t)"
    then have e2: "int (200 * c) = int t * (2 * k - 1)" by (simp add: algebra_simps)
    then have "int t dvd int (200 * c)" by simp
    then have d: "t dvd 200 * c" by (simp only: int_dvd_int_iff)
    have "int (200 * c) div int t = 2 * k - 1" using e2 assms(1) by simp
    then have "int (200 * c div t) = 2 * k - 1" by (simp add: zdiv_int)
    moreover have "odd (2 * k - 1)" by simp
    ultimately have "odd (int (200 * c div t))" by metis
    then have "odd (200 * c div t)" by simp
    with d assms(4) show False by blast
  qed
  with lo have lo': "2 * int t * k + 1 \<le> int (200 * c + t)" by linarith
  from hi have hi': "int (200 * c + t) + 1 \<le> 2 * int t * (k + 1)" by linarith
  \<comment> \<open>back to the rationals: \<open>x + 1 / 2\<close> keeps a distance of \<open>1 / (2 * T)\<close> from \<open>k\<close> and \<open>k + 1\<close>\<close>
  have "(of_int (2 * int t * k + 1) :: rat) \<le> of_int (int (200 * c + t))"
    using lo' by (simp only: of_int_le_iff)
  then have "2 * T * of_int k + 1 \<le> 2 * T * (x + 1 / 2)"
    using xT by (simp add: T_def algebra_simps)
  then have "(2 * T * of_int k + 1) / (2 * T) \<le> x + 1 / 2"
    using T(1) by (simp add: field_simps)
  then have d1: "of_int k + 1 / (2 * T) \<le> x + 1 / 2"
    using T(1) by (simp add: field_simps)
  have "(of_int (int (200 * c + t) + 1) :: rat) \<le> of_int (2 * int t * (k + 1))"
    using hi' by (simp only: of_int_le_iff)
  then have "2 * T * (x + 1 / 2) + 1 \<le> 2 * T * (of_int k + 1)"
    using xT by (simp add: T_def algebra_simps)
  then have "x + 1 / 2 + 1 / (2 * T) \<le> of_int k + 1"
    using T(1) by (simp add: field_simps)
  note d2 = this
  have "1 / (2 * 2 ^ 44) \<le> 1 / (2 * T)" using T by (simp add: field_simps)
  moreover have "(200::rat) / 2 ^ 53 < 1 / (2 * 2 ^ 44)" by simp
  ultimately have small: "200 / 2 ^ 53 < 1 / (2 * T)" by linarith
  have "of_int k \<le> f + 1 / 2" "f + 1 / 2 < of_int k + 1"
    using err small d1 d2 by linarith+
  then have "\<lfloor>f + 1 / 2\<rfloor> = k" by (simp add: floor_unique)
  moreover have "Math_round (js_times (js_div c t) 100) = Num (of_int \<lfloor>f + 1 / 2\<rfloor>)"
    using assms(1) by (simp add: js_div_def f_def)
  ultimately show ?thesis by (simp add: k_def x_def)
qed

section \<open>The three counting loops\<close>

lemma scanner_fold:
  "fold scanner_item items (t, c) =
     (t + length (filter counted_item items), c + length (filter checked_item items))"
  by (induction items arbitrary: t c)
     (simp_all add: scanner_item_def counted_item_def checked_item_def first_checkbox_def
        nav_control_def split: option.splits)

lemma dynamic_fold:
  "fold dynamic_item items (t, c) =
     (t + length (filter (\<lambda>i. first_checkbox i \<noteq> None) items),
      c + length (filter (\<lambda>i. case first_checkbox i of None \<Rightarrow> False | Some x \<Rightarrow> checked x) items))"
  by (induction items arbitrary: t c)
     (simp_all add: dynamic_item_def first_checkbox_def split: option.splits)

lemma static_fold_le:
  "c \<le> t \<Longrightarrow> fold static_item items (t, c) = (t', c') \<Longrightarrow> c' \<le> t'"
proof (induction items arbitrary: t c)
  case Nil
  then show ?case by simp
next
  case (Cons i items)
  obtain t1 c1 where s: "static_item i (t, c) = (t1, c1)" by (cases "static_item i (t, c)")
  then have "c1 \<le> t1" using Cons.prems(1)
    by (auto simp: static_item_def Let_def split: if_splits)
  then show ?case using Cons.IH [of c1 t1] Cons.prems(2) s by simp
qed

lemma filter_length_le:
  "(\<And>x. Q x \<Longrightarrow> P x) \<Longrightarrow> length (filter Q xs) \<le> length (filter P xs)"
  by (induction xs) auto

lemma checked_le_counted:
  "length (filter checked_item items) \<le> length (filter counted_item items)"
  by (rule filter_length_le) (simp add: checked_item_def counted_item_def split: option.splits)

lemma guarded_percentage_range:
  assumes "c \<le> t"
  shows "\<exists>p. (if t = 0 then Num 0 else Math_round (js_times (js_div c t) 100)) = Num (of_int p)
             \<and> 0 \<le> p \<and> p \<le> 100"
proof (cases "t = 0")
  case True
  have "Num 0 = Num (of_int 0)" by simp
  then show ?thesis using True by (intro exI [of _ 0]) simp
next
  case False
  then show ?thesis using percentage_range [of t c] assms by simp
qed

lemma parseCurrentPageProgress_eq:
  "parseCurrentPageProgress d =
     (let items = doc_querySelectorAll d (TagClass ''li'' ''task-list-item'');
          t = length (filter counted_item items); c = length (filter checked_item items)
      in \<lparr>completed = c, total = t,
          percentage = (if t = 0 then Num 0 else Math_round (js_times (js_div c t) 100))\<rparr>)"
  by (simp add: parseCurrentPageProgress_def scanner_fold Let_def)

lemma no_progress_simps [simp]:
  "completed no_progress = 0" "total no_progress = 0" "percentage no_progress = Num 0"
  by (simp_all add: no_progress_def)

lemma parseHtmlProgress_eq:
  "htmlContent \<noteq> [] \<Longrightarrow> parseHtmlProgress b htmlContent =
     (let items = doc_querySelectorAll (parseFromString b htmlContent) (TagClass ''li'' ''task-list-item'');
          t = length (filter (\<lambda>i. first_checkbox i \<noteq> None) items);
          c = length (filter (\<lambda>i. case first_checkbox i of None \<Rightarrow> False | Some x \<Rightarrow> checked x) items)
      in \<lparr>completed = c, total = t,
          percentage = (if t = 0 then Num 0 else Math_round (js_times (js_div c t) 100))\<rparr>)"
  by (simp add: parseHtmlProgress_def dynamic_fold Let_def)

lemma scanner_well_formed: "well_formed (parseCurrentPageProgress d)"
  by (simp add: parseCurrentPageProgress_eq Let_def well_formed_def checked_le_counted)

lemma dynamic_well_formed: "well_formed (parseHtmlProgress b h)"
proof (cases "h = []")
  case True
  then show ?thesis by (simp add: parseHtmlProgress_def well_formed_def)
next
  case False
  have "length (filter (\<lambda>i. case first_checkbox i of None \<Rightarrow> False | Some x \<Rightarrow> checked x) items)
        \<le> length (filter (\<lambda>i. first_checkbox i \<noteq> None) items)" for items
    by (rule filter_length_le) (simp split: option.splits)
  then show ?thesis using False by (simp add: parseHtmlProgress_eq Let_def well_formed_def)
qed

lemma static_well_formed: "well_formed (parseHtmlProgress_static b h)"
proof (cases "h = []")
  case True
  then show ?thesis by (simp add: parseHtmlProgress_static_def well_formed_def)
next
  case False
  show ?thesis
  proof (cases "contentArea_static (parseFromString b h)")
    case None
    then show ?thesis using False by (simp add: parseHtmlProgress_static_def well_formed_def)
  next
    case (Some area)
    obtain t c where f: "fold static_item (querySelectorAll area (Tag ''li'')) (0, 0) = (t, c)"
      by (cases "fold static_item (querySelectorAll area (Tag ''li'')) (0, 0)")
    then have "c \<le> t" using static_fold_le [of 0 0] by blast
    then show ?thesis using False Some f
      by (simp add: parseHtmlProgress_static_def well_formed_def Let_def)
  qed
qed

lemma well_formed_range:
  assumes "well_formed r"
  shows "completed r \<le> total r"
    and "\<exists>p. percentage r = Num (of_int p) \<and> 0 \<le> p \<and> p \<le> 100"
    and "total r = 0 \<Longrightarrow> percentage r = Num 0"
proof -
  show c: "completed r \<le> total r" using assms by (simp add: well_formed_def)
  have p: "percentage r = (if total r = 0 then Num 0
                     else Math_round (js_times (js_div (completed r) (total r)) 100))"
    using assms by (simp add: well_formed_def)
  show "\<exists>p. percentage r = Num (of_int p) \<and> 0 \<le> p \<and> p \<le> 100"
    unfolding p using c by (rule guarded_percentage_range)
  show "total r = 0 \<Longrightarrow> percentage r = Num 0" using p by simp
qed

section \<open>The page scanner counts task items\<close>

text \<open>
  Claim C1, as amended. For every document the page scanner returns as \<open>total\<close> the number
  of list items flagged as task items (\<open>li.task-list-item\<close>, in document order, nested ones
  included) whose first checkbox input exists and is not a navigation control, and as
  \<open>completed\<close> the number of those whose first checkbox is checked. The percentage is 0
  when \<open>total\<close> is 0; for a total of at most \<open>2 ^ 44\<close> it is the integer nearest to
  \<open>100 * completed / total\<close> whenever that value is not exactly halfway between two
  integers.
\<close>

theorem scanner_counts_items:
  "(let r = parseCurrentPageProgress d;
        items = doc_querySelectorAll d (TagClass ''li'' ''task-list-item'')
    in total r = length (filter counted_item items) \<and>
       completed r = length (filter checked_item items) \<and>
       (total r = 0 \<longrightarrow> percentage r = Num 0) \<and>
       (0 < total r \<and> total r \<le> 2 ^ 44 \<and> \<not> halfway (completed r) (total r) \<longrightarrow>
          percentage r =
            Num (of_int \<lfloor>100 * rat_of_nat (completed r) / rat_of_nat (total r) + 1 / 2\<rfloor>)))"
proof -
  define r where "r = parseCurrentPageProgress d"
  define items where "items = doc_querySelectorAll d (TagClass ''li'' ''task-list-item'')"
  have t: "total r = length (filter counted_item items)"
    and c: "completed r = length (filter checked_item items)"
    by (simp_all add: r_def items_def parseCurrentPageProgress_eq Let_def)
  have wf: "well_formed r" unfolding r_def by (rule scanner_well_formed)
  have z: "total r = 0 \<longrightarrow> percentage r = Num 0" using well_formed_range(3) [OF wf] by blast
  have n: "percentage r =
            Num (of_int \<lfloor>100 * rat_of_nat (completed r) / rat_of_nat (total r) + 1 / 2\<rfloor>)"
    if "0 < total r" "total r \<le> 2 ^ 44" "\<not> halfway (completed r) (total r)"
  proof -
    have "percentage r = Math_round (js_times (js_div (completed r) (total r)) 100)"
      using wf that(1) by (simp add: well_formed_def)
    also have "\<dots> = Num (of_int \<lfloor>100 * rat_of_nat (completed r) / rat_of_nat (total r) + 1 / 2\<rfloor>)"
      using that well_formed_range(1) [OF wf] by (intro percentage_nearest) (simp_all add: halfway_def)
    finally show ?thesis .
  qed
  show ?thesis using t c z n unfolding Let_def r_def [symmetric] items_def [symmetric] by blast
qed

theorem scanner_counts_items_witness:
  "total (parseCurrentPageProgress page_three_tasks) = 3 \<and>
   completed (parseCurrentPageProgress page_three_tasks) = 2 \<and>
   \<not> halfway 2 3 \<and>
   percentage (parseCurrentPageProgress page_three_tasks) = Num 67"
proof -
  define r where "r = parseCurrentPageProgress page_three_tasks"
  define items where "items = doc_querySelectorAll page_three_tasks (TagClass ''li'' ''task-list-item'')"
  have a: "length (filter counted_item items) = 3" "length (filter checked_item items) = 2"
    unfolding items_def by code_simp+
  have h: "\<not> halfway 2 3" by code_simp
  have v: "Num (of_int \<lfloor>100 * rat_of_nat 2 / rat_of_nat 3 + 1 / 2\<rfloor>) = Num 67" by code_simp
  from scanner_counts_items [of page_three_tasks]
  have t: "total r = 3" and c: "completed r = 2"
    and n: "0 < total r \<and> total r \<le> 2 ^ 44 \<and> \<not> halfway (completed r) (total r) \<longrightarrow>
          percentage r =
            Num (of_int \<lfloor>100 * rat_of_nat (completed r) / rat_of_nat (total r) + 1 / 2\<rfloor>)"
    unfolding Let_def r_def [symmetric] items_def [symmetric] a by blast+
  have "percentage r = Num 67" using n h v unfolding t c by simp
  then show ?thesis using t c h unfolding r_def by blast
qed

theorem scanner_counts_checkboxes_counterexample:
  "total (parseCurrentPageProgress page_two_checkboxes) = 1 \<and>
   length (spec_task_checkboxes page_two_checkboxes) = 2 \<and>
   total (parseCurrentPageProgress page_two_checkboxes)
     \<noteq> length (spec_task_checkboxes page_two_checkboxes) \<and>
   completed (parseCurrentPageProgress page_forty_tasks) = 23 \<and>
   total (parseCurrentPageProgress page_forty_tasks) = 40 \<and>
   percentage (parseCurrentPageProgress page_forty_tasks) = Num 57 \<and>
   percentage (parseCurrentPageProgress page_forty_tasks)
     \<noteq> Num (of_int \<lfloor>100 * rat_of_nat 23 / rat_of_nat 40 + 1 / 2\<rfloor>)"
  by code_simp

section \<open>The aggregator and the scanner\<close>

text \<open>
  Claim C4, as amended. The counting rule of the aggregator of the second dashboard script
  gives the same result as the page scanner on every page text that is not empty and in
  whose parsed document no task item has a navigation control as its first checkbox.
  (On such an item the two differ: the scanner skips it, the aggregator counts it. The
  rule of the first dashboard script is another one: it counts every list item of the
  content area that has the task class or holds a checkbox.)
\<close>

theorem aggregator_rule_agrees:
  assumes "htmlContent \<noteq> []"
    and "\<forall>item \<in> set (doc_querySelectorAll (parseFromString b htmlContent)
                          (TagClass ''li'' ''task-list-item'')).
           case first_checkbox item of None \<Rightarrow> True | Some c \<Rightarrow> \<not> nav_control c"
  shows "parseHtmlProgress b htmlContent = parseCurrentPageProgress (parseFromString b htmlContent)"
proof -
  define items where
    "items = doc_querySelectorAll (parseFromString b htmlContent) (TagClass ''li'' ''task-list-item'')"
  have "filter (\<lambda>i. first_checkbox i \<noteq> None) items = filter counted_item items"
    using assms(2) unfolding items_def [symmetric]
    by (intro filter_cong) (auto simp: counted_item_def split: option.splits)
  moreover have "filter (\<lambda>i. case first_checkbox i of None \<Rightarrow> False | Some x \<Rightarrow> checked x) items
      = filter checked_item items"
    using assms(2) unfolding items_def [symmetric]
    by (intro filter_cong) (auto simp: checked_item_def split: option.splits)
  ultimately show ?thesis
    using assms(1)
    by (simp add: parseHtmlProgress_eq parseCurrentPageProgress_eq Let_def flip: items_def)
qed

theorem aggregator_rule_agrees_witness:
  "parseFromString sample_browser three_tasks_html = page_three_tasks \<and>
   parseHtmlProgress sample_browser three_tasks_html = parseCurrentPageProgress page_three_tasks \<and>
   total (parseHtmlProgress sample_browser three_tasks_html) = 3"
proof -
  have p: "parseFromString sample_browser three_tasks_html = page_three_tasks"
    by (simp add: sample_browser_def)
  have h1: "three_tasks_html \<noteq> []" by (simp add: three_tasks_html_def)
  have h2: "\<forall>item \<in> set (doc_querySelectorAll (parseFromString sample_browser three_tasks_html)
                          (TagClass ''li'' ''task-list-item'')).
           case first_checkbox item of None \<Rightarrow> True | Some c \<Rightarrow> \<not> nav_control c"
    unfolding p by code_simp
  have t: "total (parseCurrentPageProgress page_three_tasks) = 3" by code_simp
  show ?thesis using aggregator_rule_agrees [OF h1 h2] p t by simp
qed

theorem aggregator_rule_counterexample:
  "parseFromString sample_browser toc_item_html = page_toc_item \<and>
   total (parseHtmlProgress sample_browser toc_item_html) = 1 \<and>
   total (parseCurrentPageProgress page_toc_item) = 0 \<and>
   parseFromString sample_browser plain_item_html = page_plain_item \<and>
   total (parseHtmlProgress_static sample_browser plain_item_html) = 1 \<and>
   total (parseCurrentPageProgress page_plain_item) = 0"
  by code_simp

section \<open>Bounds on the results\<close>

lemma finite_percentage:
  "well_formed r \<Longrightarrow> percentage r \<noteq> Infinity \<and> percentage r \<noteq> NaN"
  using well_formed_range(2) [of r] by auto

text \<open>
  Claim C7. In each of the three parse functions a total of 0 gives the percentage 0, and
  the percentage is a finite number on every input: the quotient \<open>completed / total\<close>,
  which is \<open>NaN\<close> or \<open>Infinity\<close> for a total of 0, is only formed behind the guard.
\<close>

theorem zero_total_zero_percentage:
  "(total (parseCurrentPageProgress d) = 0 \<longrightarrow> percentage (parseCurrentPageProgress d) = Num 0) \<and>
   (total (parseHtmlProgress_static b h) = 0 \<longrightarrow> percentage (parseHtmlProgress_static b h) = Num 0) \<and>
   (total (parseHtmlProgress b h) = 0 \<longrightarrow> percentage (parseHtmlProgress b h) = Num 0) \<and>
   percentage (parseCurrentPageProgress d) \<notin> {Infinity, NaN} \<and>
   percentage (parseHtmlProgress_static b h) \<notin> {Infinity, NaN} \<and>
   percentage (parseHtmlProgress b h) \<notin> {Infinity, NaN}"
  using well_formed_range(3) [OF scanner_well_formed [of d]]
    well_formed_range(3) [OF static_well_formed [of b h]]
    well_formed_range(3) [OF dynamic_well_formed [of b h]]
    finite_percentage [OF scanner_well_formed [of d]]
    finite_percentage [OF static_well_formed [of b h]]
    finite_percentage [OF dynamic_well_formed [of b h]]
  by simp

theorem zero_total_zero_percentage_witness:
  "total (parseCurrentPageProgress page_dashboard) = 0 \<and>
   percentage (parseCurrentPageProgress page_dashboard) = Num 0 \<and>
   total (parseHtmlProgress_static sample_browser ''<p>notes</p>'') = 0 \<and>
   percentage (parseHtmlProgress_static sample_browser ''<p>notes</p>'') = Num 0 \<and>
   total (parseHtmlProgress sample_browser ''<p>notes</p>'') = 0 \<and>
   percentage (parseHtmlProgress sample_browser ''<p>notes</p>'') = Num 0"
proof -
  have t: "total (parseCurrentPageProgress page_dashboard) = 0"
    "total (parseHtmlProgress_static sample_browser ''<p>notes</p>'') = 0"
    "total (parseHtmlProgress sample_browser ''<p>notes</p>'') = 0"
    by code_simp+
  show ?thesis
    using zero_total_zero_percentage [of page_dashboard sample_browser "''<p>notes</p>''"] t
    by blast
qed

text \<open>
  Claim C9. Every result of the three parse functions has \<open>completed \<le> total\<close> (both are
  natural numbers, so neither is negative) and a percentage that is an integer between 0
  and 100.
\<close>

theorem results_in_range:
  "completed (parseCurrentPageProgress d) \<le> total (parseCurrentPageProgress d) \<and>
   (\<exists>p. percentage (parseCurrentPageProgress d) = Num (of_int p) \<and> 0 \<le> p \<and> p \<le> 100) \<and>
   completed (parseHtmlProgress_static b h) \<le> total (parseHtmlProgress_static b h) \<and>
   (\<exists>p. percentage (parseHtmlProgress_static b h) = Num (of_int p) \<and> 0 \<le> p \<and> p \<le> 100) \<and>
   completed (parseHtmlProgress b h) \<le> total (parseHtmlProgress b h) \<and>
   (\<exists>p. percentage (parseHtmlProgress b h) = Num (of_int p) \<and> 0 \<le> p \<and> p \<le> 100)"
  using well_formed_range(1,2) [OF scanner_well_formed [of d]]
    well_formed_range(1,2) [OF static_well_formed [of b h]]
    well_formed_range(1,2) [OF dynamic_well_formed [of b h]]
  by blast

theorem results_in_range_witness:
  "completed (parseCurrentPageProgress page_three_tasks) = 2 \<and>
   total (parseCurrentPageProgress page_three_tasks) = 3 \<and>
   (\<exists>p. percentage (parseCurrentPageProgress page_three_tasks) = Num (of_int p) \<and> 0 \<le> p \<and> p \<le> 100) \<and>
   percentage (parseHtmlProgress_static sample_browser three_tasks_html) = Num 67 \<and>
   percentage (parseHtmlProgress sample_browser three_tasks_html) = Num 67"
proof -
  have "completed (parseCurrentPageProgress page_three_tasks) = 2"
    "total (parseCurrentPageProgress page_three_tasks) = 3"
    "percentage (parseHtmlProgress_static sample_browser three_tasks_html) = Num 67"
    "percentage (parseHtmlProgress sample_browser three_tasks_html) = Num 67"
    by code_simp+
  then show ?thesis
    using results_in_range [of page_three_tasks sample_browser three_tasks_html] by blast
qed

section \<open>The loop over the pages\<close>

lemma fetchHtmlContent_result:
  "\<exists>w'. fetchHtmlContent b pagePath w = (Inr (fetched_text b pagePath), w')"
  by (simp add: fetchHtmlContent_def fetchHtmlContent_try_def fetched_text_def Let_def
        split: fetch_result.splits option.splits)

lemma aggregate_result:
  "\<exists>w'. aggregate b files acc w =
     (Inr (acc @ map (\<lambda>f. (f, parseHtmlProgress b (fetched_text b (path f)))) files), w')"
proof (induction files arbitrary: acc w)
  case Nil
  then show ?case by simp
next
  case (Cons page pages)
  obtain w1 where f: "fetchHtmlContent b (path page) w = (Inr (fetched_text b (path page)), w1)"
    using fetchHtmlContent_result by blast
  show ?case
    using Cons.IH [of "acc @ [(page, parseHtmlProgress b (fetched_text b (path page)))]"
        "console_call (parseHtmlProgress_console (fetched_text b (path page))) w1"]
    by (simp add: f)
qed

lemma fetchHtmlContent_static_result:
  "URL_href b pagePath = Some fullUrl \<Longrightarrow>
   \<exists>w'. fetchHtmlContent_static b pagePath w = (Inr (fetched_text_static b fullUrl), w')"
  by (simp add: fetchHtmlContent_static_def fetchHtmlContent_static_try_def
        fetched_text_static_def Let_def split: fetch_result.splits option.splits)

lemma aggregate_static_result:
  "\<forall>f \<in> set files. URL_href b (path f) \<noteq> None \<Longrightarrow>
   \<exists>w'. aggregate_static b files acc w =
     (Inr (acc @ map (\<lambda>f. (f, parseHtmlProgress_static b
                               (fetched_text_static b (the (URL_href b (path f)))))) files), w')"
proof (induction files arbitrary: acc w)
  case Nil
  then show ?case by simp
next
  case (Cons page pages)
  from Cons.prems obtain u where u: "URL_href b (path page) = Some u" by auto
  obtain w1 where f: "fetchHtmlContent_static b (path page) w = (Inr (fetched_text_static b u), w1)"
    using fetchHtmlContent_static_result [OF u] by blast
  have "\<forall>f \<in> set pages. URL_href b (path f) \<noteq> None" using Cons.prems by simp
  from Cons.IH [OF this,
      of "acc @ [(page, parseHtmlProgress_static b (fetched_text_static b u))]"
        "console_call (parseHtmlProgress_static_console b (fetched_text_static b u)) w1"]
  show ?case by (simp add: f u)
qed

text \<open>
  Claim C5. For every list of pages the loop of the aggregator returns one entry per page,
  in the order of the list, whatever the fetches do. The loop of the first dashboard
  script does the same for pages whose paths the \<open>URL\<close> constructor accepts, as it does for
  the three paths of that script.
\<close>

theorem aggregate_keeps_length_and_order:
  "(\<exists>out w'. aggregate b files [] w = (Inr out, w') \<and>
      length out = length files \<and> map fst out = files) \<and>
   ((\<forall>f \<in> set files. URL_href b (path f) \<noteq> None) \<longrightarrow>
    (\<exists>out w'. aggregate_static b files [] w = (Inr out, w') \<and>
       length out = length files \<and> map fst out = files))"
proof (intro conjI impI)
  obtain w' where "aggregate b files [] w =
     (Inr ([] @ map (\<lambda>f. (f, parseHtmlProgress b (fetched_text b (path f)))) files), w')"
    using aggregate_result by blast
  then show "\<exists>out w'. aggregate b files [] w = (Inr out, w') \<and>
      length out = length files \<and> map fst out = files"
    by (simp add: comp_def)
next
  assume "\<forall>f \<in> set files. URL_href b (path f) \<noteq> None"
  then obtain w' where "aggregate_static b files [] w =
     (Inr ([] @ map (\<lambda>f. (f, parseHtmlProgress_static b
                               (fetched_text_static b (the (URL_href b (path f)))))) files), w')"
    using aggregate_static_result by blast
  then show "\<exists>out w'. aggregate_static b files [] w = (Inr out, w') \<and>
       length out = length files \<and> map fst out = files"
    by (simp add: comp_def)
qed

theorem aggregate_keeps_length_and_order_witness:
  "fetch_failed sample_browser ''project_setup/'' \<and> fetch_failed sample_browser ''backend/'' \<and>
   (\<exists>out w'. aggregate sample_browser filesToTrack_static [] fresh_page = (Inr out, w') \<and>
      length out = 3 \<and> map fst out = filesToTrack_static) \<and>
   (\<exists>out w'. aggregate_static sample_browser filesToTrack_static [] fresh_page = (Inr out, w') \<and>
      length out = 3 \<and> map fst out = filesToTrack_static)"
proof -
  have f: "fetch_failed sample_browser ''project_setup/''" "fetch_failed sample_browser ''backend/''"
    by code_simp+
  have h: "\<forall>f \<in> set filesToTrack_static. URL_href sample_browser (path f) \<noteq> None"
    by (simp add: sample_browser_def)
  have l: "length filesToTrack_static = 3" by (simp add: filesToTrack_static_def)
  show ?thesis
    using aggregate_keeps_length_and_order [of sample_browser filesToTrack_static fresh_page] f h
    unfolding l by blast
qed



section \<open>The discovery of the pages\<close>

lemma js_split_not_empty: "js_split c s \<noteq> []"
  by (induction s) (auto split: list.splits)

lemma length_js_split: "length (js_split c s) = Suc (length (filter (\<lambda>x. x = c) s))"
proof (induction s)
  case Nil
  then show ?case by simp
next
  case (Cons x s)
  obtain piece pieces where p: "js_split c s = piece # pieces"
    using js_split_not_empty [of c s] by (cases "js_split c s") auto
  show ?case using Cons by (simp add: p)
qed

lemma isTopLevelPage_iff: "isTopLevelPage loc \<longleftrightarrow> CHR ''/'' \<notin> set (butlast loc)"
proof (cases loc rule: rev_cases)
  case Nil
  then show ?thesis by (simp add: isTopLevelPage_def js_includes_def)
next
  case (snoc front l)
  have e: "endsWith loc ''/'' \<longleftrightarrow> l = CHR ''/''"
    by (simp add: endsWith_def snoc)
  have n: "length (js_split CHR ''/'' loc) \<le> 2 \<longleftrightarrow>
      length (filter (\<lambda>x. x = CHR ''/'') front) + (if l = CHR ''/'' then 1 else 0) \<le> 1"
    by (simp add: length_js_split snoc)
  have z: "length (filter (\<lambda>x. x = CHR ''/'') front) = 0 \<longleftrightarrow> CHR ''/'' \<notin> set front"
    by (auto simp: filter_empty_conv)
  show ?thesis
    unfolding isTopLevelPage_def e n js_includes_def using z by (auto simp: snoc)
qed

lemma filter_doc_iff:
  "filter_doc doc \<longleftrightarrow>
     location doc \<notin> {''index/'', ''index.md'', ''index.html''} \<and>
     \<not> spec_nested_beyond_one_level (location doc)"
  by (simp add: filter_doc_def spec_nested_beyond_one_level_def isTopLevelPage_iff)

lemma mset_js_insert: "mset (js_insert compare x xs) = add_mset x (mset xs)"
  by (induction xs) simp_all

lemma mset_js_sort: "mset (js_sort compare xs) = mset xs"
  unfolding js_sort_def by (induction xs) (simp_all add: mset_js_insert)

lemma set_js_insert: "set (js_insert compare x xs) = insert x (set xs)"
  using mset_js_insert [of compare x xs, THEN arg_cong, of set_mset] by simp

lemma sorted_js_insert:
  assumes "consistent_comparator compare"
  shows "sorted_wrt (\<lambda>x y. compare x y \<le> 0) xs
         \<Longrightarrow> sorted_wrt (\<lambda>x y. compare x y \<le> 0) (js_insert compare x xs)"
proof (induction xs)
  case Nil
  then show ?case by simp
next
  case (Cons y ys)
  have total: "compare u v \<le> 0 \<or> compare v u \<le> 0" for u v
    using assms by (simp add: consistent_comparator_def)
  have trans: "compare u v \<le> 0 \<Longrightarrow> compare v z \<le> 0 \<Longrightarrow> compare u z \<le> 0" for u v z
    using assms unfolding consistent_comparator_def by blast
  show ?case
  proof (cases "compare x y \<le> 0")
    case True
    then have "\<forall>z \<in> set ys. compare x z \<le> 0" using Cons.prems trans by auto
    then show ?thesis using True Cons.prems by simp
  next
    case False
    then have "compare y x \<le> 0" using total by blast
    then show ?thesis using False Cons by (simp add: set_js_insert)
  qed
qed

lemma sorted_js_sort:
  "consistent_comparator compare \<Longrightarrow> sorted_wrt (\<lambda>x y. compare x y \<le> 0) (js_sort compare xs)"
  unfolding js_sort_def by (induction xs) (simp_all add: sorted_js_insert)

lemma consistent_on_names:
  "consistent_comparator compare \<Longrightarrow> consistent_comparator (\<lambda>x y. compare (name x) (name y))"
  unfolding consistent_comparator_def by blast

lemma populate_ok:
  assumes "fetch b (searchIndexUrl b) = Resolved response" "ok response"
    and "json_result response = Some searchIndex"
  shows "filesToTrack (populateFilesToTrack b w) =
           js_sort (\<lambda>x y. localeCompare b (name x) (name y))
             (map (map_doc b) (filter filter_doc (docs searchIndex)))"
  using assms
  by (simp add: populateFilesToTrack_def populateFilesToTrack_try_def Let_def
        console_call_def send_request_def)

text \<open>
  What the resolver finds, when the search index is fetched and parsed: the locations
  that are none of \<open>index/\<close>, \<open>index.md\<close> and \<open>index.html\<close> and are not nested beyond
  one level, each as often as it occurs.
\<close>

lemma resolver_paths:
  assumes "fetch b (searchIndexUrl b) = Resolved response" "ok response"
    and "json_result response = Some searchIndex"
  shows "mset (map path (filesToTrack (populateFilesToTrack b w))) =
         mset (filter (\<lambda>loc. loc \<notin> {''index/'', ''index.md'', ''index.html''} \<and>
                             \<not> spec_nested_beyond_one_level loc)
                 (map location (docs searchIndex)))"
proof -
  define kept where "kept = filter filter_doc (docs searchIndex)"
  have "mset (map path (filesToTrack (populateFilesToTrack b w))) =
        image_mset path (mset (js_sort (\<lambda>x y. localeCompare b (name x) (name y))
                                 (map (map_doc b) kept)))"
    by (simp add: populate_ok [OF assms] kept_def)
  also have "\<dots> = image_mset path (mset (map (map_doc b) kept))"
    by (simp only: mset_js_sort)
  also have "\<dots> = mset (map location kept)"
    by (simp add: map_doc_def multiset.map_comp comp_def)
  also have "map location kept =
      filter (\<lambda>loc. loc \<notin> {''index/'', ''index.md'', ''index.html''} \<and>
                     \<not> spec_nested_beyond_one_level loc)
        (map location (docs searchIndex))"
  proof -
    have "filter_doc = (\<lambda>doc. location doc \<notin> {''index/'', ''index.md'', ''index.html''} \<and>
                               \<not> spec_nested_beyond_one_level (location doc))"
      by (rule ext) (rule filter_doc_iff)
    then show ?thesis by (simp add: kept_def filter_map comp_def)
  qed
  finally show ?thesis .
qed

text \<open>The requests of the dashboard: the search index, then the pages found, in their order.\<close>

lemma requests_simps [simp]:
  "requests (console_call c w) = requests w"
  "requests (set_innerHTML markup w) = requests w"
  "requests (appendChild fileCard w) = requests w"
  "requests (send_request url w) = requests w @ [url]"
  by (simp_all add: console_call_def set_innerHTML_def appendChild_def send_request_def)

lemma requests_fold_appendChild: "requests (fold appendChild cards w) = requests w"
  by (induction cards arbitrary: w) simp_all

lemma fetchHtmlContent_requests:
  "requests (snd (fetchHtmlContent b pagePath w)) =
     requests w @ [origin b @ SITE_BASE_PATH b @ pagePath]"
  by (simp add: fetchHtmlContent_def fetchHtmlContent_try_def Let_def
        split: fetch_result.splits option.splits)

lemma aggregate_requests:
  "requests (snd (aggregate b files acc w)) =
     requests w @ map (\<lambda>f. origin b @ SITE_BASE_PATH b @ path f) files"
proof (induction files arbitrary: acc w)
  case Nil
  then show ?case by simp
next
  case (Cons page pages)
  obtain w1 where f: "fetchHtmlContent b (path page) w = (Inr (fetched_text b (path page)), w1)"
    using fetchHtmlContent_result by blast
  have r: "requests w1 = requests w @ [origin b @ SITE_BASE_PATH b @ path page]"
    using fetchHtmlContent_requests [of b "path page" w] by (simp add: f)
  show ?case
    using Cons.IH [of "acc @ [(page, parseHtmlProgress b (fetched_text b (path page)))]"
        "console_call (parseHtmlProgress_console (fetched_text b (path page))) w1"]
    by (simp add: f r)
qed

lemma populate_requests:
  "requests (populateFilesToTrack b w) = requests w @ [searchIndexUrl b]"
  by (simp add: populateFilesToTrack_def populateFilesToTrack_try_def Let_def
        split: fetch_result.splits option.splits)

lemma render_requests:
  "requests (snd (renderConsolidatedDashboard b w)) =
     requests w @ searchIndexUrl b #
       map (\<lambda>f. origin b @ SITE_BASE_PATH b @ path f)
         (filesToTrack (populateFilesToTrack b (set_innerHTML loading_task_progress w)))"
proof -
  define w2 where "w2 = populateFilesToTrack b (set_innerHTML loading_task_progress w)"
  define out where
    "out = map (\<lambda>f. (f, parseHtmlProgress b (fetched_text b (path f)))) (filesToTrack w2)"
  obtain w3 where a: "aggregate b (filesToTrack w2) [] w2 = (Inr out, w3)"
    using aggregate_result [of b "filesToTrack w2" "[]" w2] by (auto simp: out_def)
  have r2: "requests w2 = requests w @ [searchIndexUrl b]"
    by (simp add: w2_def populate_requests)
  have r3: "requests w3 = requests w2 @ map (\<lambda>f. origin b @ SITE_BASE_PATH b @ path f) (filesToTrack w2)"
    using aggregate_requests [of b "filesToTrack w2" "[]" w2] by (simp add: a)
  have r: "renderConsolidatedDashboard b w =
       (if filesToTrack w2 = [] then (Inr (), set_innerHTML no_tracked_pages w2)
        else if out = [] then (Inr (), set_innerHTML no_progress_data_for_tracked_pages
                                         (set_innerHTML [] w3))
        else (Inr (), fold appendChild out (set_innerHTML [] w3)))"
    unfolding renderConsolidatedDashboard_def Let_def w2_def [symmetric] by (simp add: a)
  show ?thesis
    unfolding r w2_def [symmetric]
    by (simp add: r2 r3 requests_fold_appendChild)
qed

text \<open>
  Claim C2. On the sample site the search index lists the page of the dashboard under the
  empty location. The resolver drops the nested locations and keeps the others, but it
  keeps the page of the dashboard too: its path is among the pages found, and the
  dashboard requests the address of the page it runs on.
\<close>

theorem dashboard_page_is_tracked:
  "fetch sample_browser (searchIndexUrl sample_browser) =
     Resolved (Response True 200 ''OK'' None (Some sample_index)) \<and>
   location (hd (docs sample_index)) = [] \<and>
   spec_dashboard_page sample_browser [] \<and>
   filter_doc (hd (docs sample_index)) \<and>
   map path (filesToTrack (populateFilesToTrack sample_browser fresh_page)) =
     [''about/'', ''backend/'', ''frontend/'', ''#overview'', []] \<and>
   origin sample_browser @ pathname sample_browser = ''https://example.org/'' \<and>
   requests (snd (dynamic_dashboard sample_browser page_dashboard fresh_page)) =
     [''https://example.org/search/search_index.json'', ''https://example.org/about/'',
      ''https://example.org/backend/'', ''https://example.org/frontend/'',
      ''https://example.org/#overview'', ''https://example.org/'']"
proof -
  have h: "fetch sample_browser (searchIndexUrl sample_browser) =
     Resolved (Response True 200 ''OK'' None (Some sample_index))"
    by (simp add: sample_browser_def searchIndexUrl_def SITE_BASE_PATH_def getBasePath_def
          startsWith_def)
  have h2: "ok (Response True 200 ''OK'' None (Some sample_index))"
    and h3: "json_result (Response True 200 ''OK'' None (Some sample_index)) = Some sample_index"
    by simp_all
  have l: "location (hd (docs sample_index)) = []" by (simp add: sample_index_def)
  have d: "spec_dashboard_page sample_browser []" by code_simp
  have f: "filter_doc (hd (docs sample_index))" by code_simp
  have o: "origin sample_browser @ pathname sample_browser = ''https://example.org/''"
    by (simp add: sample_browser_def)
  define found where
    "found = js_sort (\<lambda>x y. localeCompare sample_browser (name x) (name y))
               (map (map_doc sample_browser) (filter filter_doc (docs sample_index)))"
  have p: "filesToTrack (populateFilesToTrack sample_browser v) = found" for v
    unfolding found_def by (rule populate_ok [OF h h2 h3])
  have e: "map path found = [''about/'', ''backend/'', ''frontend/'', ''#overview'', []]"
    unfolding found_def by code_simp
  have u: "map (\<lambda>f. origin sample_browser @ SITE_BASE_PATH sample_browser @ path f) found =
      map (\<lambda>loc. origin sample_browser @ SITE_BASE_PATH sample_browser @ loc) (map path found)"
    by (simp add: comp_def)
  have v: "map (\<lambda>loc. origin sample_browser @ SITE_BASE_PATH sample_browser @ loc)
             [''about/'', ''backend/'', ''frontend/'', ''#overview'', []] =
     [''https://example.org/about/'', ''https://example.org/backend/'',
      ''https://example.org/frontend/'', ''https://example.org/#overview'',
      ''https://example.org/'']"
    by code_simp
  have s: "searchIndexUrl sample_browser = ''https://example.org/search/search_index.json''"
    by code_simp
  have c: "getElementById page_dashboard ''progress-dashboard-container'' =
      Some (Element ''div'' [(''id'', ''progress-dashboard-container'')] [] False [])"
    by code_simp
  have q: "requests (snd (dynamic_dashboard sample_browser page_dashboard fresh_page)) =
     [''https://example.org/search/search_index.json'', ''https://example.org/about/'',
      ''https://example.org/backend/'', ''https://example.org/frontend/'',
      ''https://example.org/#overview'', ''https://example.org/'']"
  proof -
    have "requests (snd (dynamic_dashboard sample_browser page_dashboard fresh_page)) =
        requests fresh_page @ searchIndexUrl sample_browser #
          map (\<lambda>f. origin sample_browser @ SITE_BASE_PATH sample_browser @ path f) found"
      unfolding dynamic_dashboard_def c option.case render_requests p
      by (simp add: set_innerHTML_def)
    also have "\<dots> = [] @ ''https://example.org/search/search_index.json'' #
       [''https://example.org/about/'', ''https://example.org/backend/'',
        ''https://example.org/frontend/'', ''https://example.org/#overview'',
        ''https://example.org/'']"
      unfolding u e v s by (simp only: fresh_page_def page_state.simps)
    finally show ?thesis by simp
  qed
  show ?thesis using h l d f p [of fresh_page] e o q by simp
qed

section \<open>The dashboard\<close>

lemma fileCards_fold_appendChild:
  "fileCards (fold appendChild cards w) = fileCards w @ cards"
  by (induction cards arbitrary: w) (simp_all add: appendChild_def)

lemma render_cards:
  "map fst (fileCards (snd (renderConsolidatedDashboard b w))) =
     filesToTrack (populateFilesToTrack b (set_innerHTML loading_task_progress w))"
proof -
  define w2 where "w2 = populateFilesToTrack b (set_innerHTML loading_task_progress w)"
  define out where
    "out = map (\<lambda>f. (f, parseHtmlProgress b (fetched_text b (path f)))) (filesToTrack w2)"
  obtain w3 where a: "aggregate b (filesToTrack w2) [] w2 = (Inr out, w3)"
    using aggregate_result [of b "filesToTrack w2" "[]" w2] by (auto simp: out_def)
  have r: "renderConsolidatedDashboard b w =
       (if filesToTrack w2 = [] then (Inr (), set_innerHTML no_tracked_pages w2)
        else if out = [] then (Inr (), set_innerHTML no_progress_data_for_tracked_pages
                                         (set_innerHTML [] w3))
        else (Inr (), fold appendChild out (set_innerHTML [] w3)))"
    unfolding renderConsolidatedDashboard_def Let_def w2_def [symmetric] by (simp add: a)
  have e: "out = [] \<longleftrightarrow> filesToTrack w2 = []" by (simp add: out_def)
  have m: "map fst out = filesToTrack w2" by (simp add: out_def comp_def)
  show ?thesis
    unfolding r w2_def [symmetric]
    using e m by (simp add: fileCards_fold_appendChild set_innerHTML_def)
qed

text \<open>
  Claim C10. With a comparator that orders the names, the pages found are sorted by their
  display names before the loop over them starts, and the cards of the dashboard follow
  that order: they are the sorted pages, not the entries in the order of the index.
\<close>

theorem dashboard_in_name_order:
  assumes "consistent_comparator (localeCompare b)"
    and "getElementById doc ''progress-dashboard-container'' \<noteq> None"
    and "fetch b (searchIndexUrl b) = Resolved response" "ok response"
    and "json_result response = Some searchIndex"
  shows "filesToTrack (populateFilesToTrack b w) =
           js_sort (\<lambda>x y. localeCompare b (name x) (name y))
             (map (map_doc b) (filter filter_doc (docs searchIndex))) \<and>
         sorted_wrt (\<lambda>x y. localeCompare b (name x) (name y) \<le> 0)
           (filesToTrack (populateFilesToTrack b w)) \<and>
         map fst (fileCards (snd (dynamic_dashboard b doc w))) =
           filesToTrack (populateFilesToTrack b w)"
proof -
  have p: "filesToTrack (populateFilesToTrack b v) =
           js_sort (\<lambda>x y. localeCompare b (name x) (name y))
             (map (map_doc b) (filter filter_doc (docs searchIndex)))" for v
    by (rule populate_ok [OF assms(3-5)])
  have s: "sorted_wrt (\<lambda>x y. localeCompare b (name x) (name y) \<le> 0)
           (filesToTrack (populateFilesToTrack b w))"
    unfolding p by (rule sorted_js_sort [OF consistent_on_names [OF assms(1)]])
  obtain c where c: "getElementById doc ''progress-dashboard-container'' = Some c"
    using assms(2) by blast
  have "map fst (fileCards (snd (dynamic_dashboard b doc w))) =
           filesToTrack (populateFilesToTrack b w)"
    by (simp add: dynamic_dashboard_def c render_cards p)
  then show ?thesis using p s by blast
qed

theorem dashboard_in_name_order_witness:
  "consistent_comparator (localeCompare sample_browser) \<and>
   map (name \<circ> map_doc sample_browser) (filter filter_doc (docs sample_index)) =
     [''Progress'', ''Overview'', ''Frontend'', ''About'', ''Backend''] \<and>
   map (name \<circ> fst) (fileCards (snd (dynamic_dashboard sample_browser page_dashboard fresh_page)))
     = [''About'', ''Backend'', ''Frontend'', ''Overview'', ''Progress'']"
proof -
  have "localeCompare sample_browser = dictionary_compare" by (simp add: sample_browser_def)
  moreover have "consistent_comparator dictionary_compare"
    by (auto simp: consistent_comparator_def dictionary_compare_def)
  ultimately have h1: "consistent_comparator (localeCompare sample_browser)" by simp
  have h2: "getElementById page_dashboard ''progress-dashboard-container'' \<noteq> None"
    by code_simp
  have h3: "fetch sample_browser (searchIndexUrl sample_browser) =
     Resolved (Response True 200 ''OK'' None (Some sample_index))"
    by (simp add: sample_browser_def searchIndexUrl_def SITE_BASE_PATH_def getBasePath_def
          startsWith_def)
  have h4: "ok (Response True 200 ''OK'' None (Some sample_index))"
    and h5: "json_result (Response True 200 ''OK'' None (Some sample_index)) = Some sample_index"
    by simp_all
  have k: "map (name \<circ> map_doc sample_browser) (filter filter_doc (docs sample_index)) =
     [''Progress'', ''Overview'', ''Frontend'', ''About'', ''Backend'']"
    by code_simp
  have n: "map name (js_sort (\<lambda>x y. localeCompare sample_browser (name x) (name y))
             (map (map_doc sample_browser) (filter filter_doc (docs sample_index))))
     = [''About'', ''Backend'', ''Frontend'', ''Overview'', ''Progress'']"
    by code_simp
  from dashboard_in_name_order [OF h1 h2 h3 h4 h5, of fresh_page]
  have "map fst (fileCards (snd (dynamic_dashboard sample_browser page_dashboard fresh_page))) =
        js_sort (\<lambda>x y. localeCompare sample_browser (name x) (name y))
             (map (map_doc sample_browser) (filter filter_doc (docs sample_index)))"
    by simp
  then have "map (name \<circ> fst) (fileCards (snd (dynamic_dashboard sample_browser page_dashboard fresh_page)))
     = [''About'', ''Backend'', ''Frontend'', ''Overview'', ''Progress'']"
    using n by (simp flip: map_map)
  then show ?thesis using h1 k by blast
qed

text \<open>
  Claim C8. When the document has no element with the \<open>id\<close> of the dashboard container,
  each of the two dashboard scripts returns without an exception and leaves the page as it
  was but for one more message on the console: no request, no script, no markup.
\<close>

theorem missing_container_aborts:
  assumes "getElementById doc ''progress-dashboard-container'' = None"
  shows "static_dashboard b doc w =
           (Inr (), w\<lparr>console := console w @ [Console_warn container_not_found_static]\<rparr>) \<and>
         dynamic_dashboard b doc w =
           (Inr (), w\<lparr>console := console w @ [Console_log container_not_found]\<rparr>)"
  using assms by (simp add: static_dashboard_def dynamic_dashboard_def console_call_def)

theorem missing_container_aborts_witness:
  "getElementById page_three_tasks ''progress-dashboard-container'' = None \<and>
   static_dashboard sample_browser page_three_tasks fresh_page =
     (Inr (), fresh_page\<lparr>console := [Console_warn container_not_found_static]\<rparr>) \<and>
   dynamic_dashboard sample_browser page_three_tasks fresh_page =
     (Inr (), fresh_page\<lparr>console := [Console_log container_not_found]\<rparr>)"
proof -
  have h: "getElementById page_three_tasks ''progress-dashboard-container'' = None"
    by code_simp
  have c: "console fresh_page = []" by (simp add: fresh_page_def)
  show ?thesis
    using missing_container_aborts [OF h, of sample_browser fresh_page] h unfolding c by simp
qed

section \<open>A search index that cannot be fetched\<close>

text \<open>
  When the request for the search index is answered with a status that is not \<open>ok\<close>, or
  is rejected, \<open>populateFilesToTrack\<close> writes an error message into the container and
  leaves \<open>filesToTrack\<close> empty. No page is fetched then; but the dashboard goes on to its
  test for an empty list and replaces the error message by the notice that no tracked
  pages were found.
\<close>

lemma populate_after_failure:
  assumes "case fetch b (searchIndexUrl b) of Rejected \<Rightarrow> True | Resolved response \<Rightarrow> \<not> ok response"
  shows "filesToTrack (populateFilesToTrack b w) = filesToTrack w"
    and "requests (populateFilesToTrack b w) = requests w @ [searchIndexUrl b]"
    and "innerHTML (populateFilesToTrack b w) = index_fetch_error \<or>
         innerHTML (populateFilesToTrack b w) = index_parse_error"
  using assms
  by (simp_all add: populateFilesToTrack_def populateFilesToTrack_try_def Let_def
        console_call_def send_request_def set_innerHTML_def split: fetch_result.splits)

lemma index_failure_ends_with_no_tracked_pages:
  assumes "getElementById doc ''progress-dashboard-container'' \<noteq> None"
    and "case fetch b (searchIndexUrl b) of Rejected \<Rightarrow> True | Resolved response \<Rightarrow> \<not> ok response"
  shows "innerHTML (snd (dynamic_dashboard b doc w)) = no_tracked_pages"
    and "requests (snd (dynamic_dashboard b doc w)) = requests w @ [searchIndexUrl b]"
    and "fileCards (snd (dynamic_dashboard b doc w)) = []"
proof -
  obtain c where c: "getElementById doc ''progress-dashboard-container'' = Some c"
    using assms(1) by blast
  define w1 where "w1 = set_innerHTML loading_task_progress
    (w\<lparr>filesToTrack := [], head_scripts := head_scripts w @ [tailwind]\<rparr>)"
  have f: "filesToTrack (populateFilesToTrack b w1) = []"
    and r: "requests (populateFilesToTrack b w1) = requests w @ [searchIndexUrl b]"
    using populate_after_failure(1,2) [OF assms(2), of w1]
    by (simp_all add: w1_def set_innerHTML_def)
  have d: "dynamic_dashboard b doc w =
      (Inr (), set_innerHTML no_tracked_pages (populateFilesToTrack b w1))"
    unfolding dynamic_dashboard_def renderConsolidatedDashboard_def Let_def w1_def [symmetric]
    by (simp add: c f)
  show "innerHTML (snd (dynamic_dashboard b doc w)) = no_tracked_pages"
    and "requests (snd (dynamic_dashboard b doc w)) = requests w @ [searchIndexUrl b]"
    and "fileCards (snd (dynamic_dashboard b doc w)) = []"
    unfolding d by (simp_all add: set_innerHTML_def r)
qed

text \<open>
  Claim C3. On the sample site without its search index, and on the site that is offline,
  the only request is the one for the index, and the container ends with the notice
  \<open>No other tracked pages found\<close>, which is neither of the two error messages.
\<close>

theorem index_failure_message_overwritten:
  "getElementById page_dashboard ''progress-dashboard-container'' \<noteq> None \<and>
   fetch browser_without_index (searchIndexUrl browser_without_index) =
     Resolved (Response False 404 ''Not Found'' None None) \<and>
   innerHTML (snd (dynamic_dashboard browser_without_index page_dashboard fresh_page)) =
     no_tracked_pages \<and>
   requests (snd (dynamic_dashboard browser_without_index page_dashboard fresh_page)) =
     [searchIndexUrl browser_without_index] \<and>
   fetch browser_offline (searchIndexUrl browser_offline) = Rejected \<and>
   innerHTML (snd (dynamic_dashboard browser_offline page_dashboard fresh_page)) =
     no_tracked_pages \<and>
   requests (snd (dynamic_dashboard browser_offline page_dashboard fresh_page)) =
     [searchIndexUrl browser_offline] \<and>
   no_tracked_pages \<noteq> index_fetch_error \<and> no_tracked_pages \<noteq> index_parse_error"
  by code_simp

end
